theory Spec2Isabelle
  imports Main "HOL-Library.Word"
begin

unbundle bit_operations_syntax

section \<open>Machine types\<close>

type_synonym u8 = "8 word"
type_synonym u32 = "32 word"

section \<open>The driver interface: \<^verbatim>\<open>nand/nandio.h\<close>\<close>

text \<open>
  \<^verbatim>\<open>#define CRYPT_BUF_LEN 64\<close>
\<close>

definition CRYPT_BUF_LEN :: nat where
  "CRYPT_BUF_LEN = 64"

text \<open>
  \<^verbatim>\<open>#define NAND_DEVICENAME (('N' << 24) | ('A' << 16) | ('N' << 8) | 'D')\<close>
  The operands are character constants, so the expression is computed in C's \<open>int\<close>;
  it is modelled on \<open>int\<close> and shown below to stay inside the 32-bit signed range.
\<close>

definition NAND_DEVICENAME :: int where
  "NAND_DEVICENAME =
     (push_bit 24 (of_char CHR ''N'') OR push_bit 16 (of_char CHR ''A'')
        OR push_bit 8 (of_char CHR ''N'') OR of_char CHR ''D'')"

text \<open>The four bytes of a 32-bit value, most significant first, read as characters.\<close>

definition tag_chars :: "int \<Rightarrow> string" where
  "tag_chars v = map (\<lambda>k. char_of (drop_bit k v)) [24, 16, 8, 0]"

text \<open>
  The entry points that \<^verbatim>\<open>nandio.h\<close> declares. Their bodies are not part of the
  sources at hand; the application only calls them.
\<close>

datatype nandio_call =
    Set_fat_sig_fix u32
  | Shutdown
  | Lock_writing
  | Unlock_writing
  | Force_fat_fix
  | Synchronize_fats

section \<open>The application: \<^verbatim>\<open>main.cpp\<close>\<close>

subsection \<open>State and environment\<close>

datatype choice = YES | NO

datatype fifo_channel = FIFO_USER_01 | FIFO_USER_02 | FIFO_USER_03

text \<open>
  Calls that leave \<^verbatim>\<open>main.cpp\<close>, in the order they happen. Screen output other
  than message and choice boxes is not recorded.
\<close>

datatype event =
    MessageBox string
  | ChoiceBox string
  | Nandio nandio_call
  | FatUnmount string
  | FifoSendValue32 fifo_channel u32
  | SwiSHA1Calc string
  | ToggleFileReadOnly string bool
  | Ftruncate string nat
  | Fwrite string string

text \<open>
  The globals of \<^verbatim>\<open>main.cpp\<close> (\<open>programEnd\<close>, \<open>arm7Exiting\<close>, \<open>charging\<close>,
  \<open>batteryLevel\<close>), the mounted file systems (a file is its bytes, a directory its
  entries: is-directory flag and name), the calls made so far, and the inputs still to
  come: the user's answers to choice boxes and the FIFO messages of the other processor,
  grouped by the point where the program next reads a volatile flag. The driver keeps its
  state in its own translation unit; \<^verbatim>\<open>main.cpp\<close> reaches it only through the calls
  recorded in \<open>trace\<close>.
\<close>

record world =
  programEnd :: bool
  arm7Exiting :: bool
  charging :: bool
  batteryLevel :: u8
  files :: "string \<rightharpoonup> string"
  dirs :: "string \<rightharpoonup> (bool \<times> string) list"
  trace :: "event list"
  choices :: "choice list"
  irqs :: "(fifo_channel \<times> u32) list list"

text \<open>
  What the libraries answer. \<open>sha1\<close> is the BIOS call \<^verbatim>\<open>swiSHA1Calc\<close>;
  \<open>calculateFileSha1\<close> and \<open>digestOfHex\<close> (the \<^verbatim>\<open>Sha1Digest\<close> constructor from a
  hexadecimal string) come from \<^verbatim>\<open>sha1digest.h\<close>, \<open>toggle_ok\<close> from
  \<^verbatim>\<open>storage.h\<close>; none of them is in the sources at hand, so they are parameters.
  \<open>uninit\<close> is the value an uninitialised \<^verbatim>\<open>uint32_t\<close> happens to hold.
  The target is written through a buffered stream: \<open>fwrite_count\<close> is what \<open>fwrite\<close>
  returns for its one item (1 once the stream has taken the bytes, which does not mean
  that they are in the file), and \<open>fwrite_room\<close> is the number of bytes that have reached
  the file when \<open>fclose\<close>, which flushes the stream, has returned.
\<close>

record env =
  isDSiMode :: bool
  fatInitDefault :: bool
  fatMountSimple :: bool
  argv0 :: "string option"
  deviceListAppname :: "string option"
  nitroFSInit :: "string \<Rightarrow> bool"
  uninit :: u32
  sha1 :: "string \<Rightarrow> string"
  calculateFileSha1 :: "string \<Rightarrow> string option"
  digestOfHex :: "string \<Rightarrow> string"
  unlock_ok :: bool
  toggle_ok :: "string \<Rightarrow> bool"
  fopen_update_ok :: bool
  ftruncate_ok :: bool
  fwrite_count :: nat
  fwrite_room :: nat

datatype outcome =
    Exited string
  | Returned
  | Blocked
  | Undefined

definition emit :: "event \<Rightarrow> world \<Rightarrow> world" where
  "emit e w = w\<lparr>trace := trace w @ [e]\<rparr>"

subsection \<open>The FIFO handlers registered by \<open>main\<close>\<close>

text \<open>
  \<^verbatim>\<open>if (value32 == 0x54495845) { programEnd = true; arm7Exiting = true; }\<close>
\<close>

definition exit_handler :: "u32 \<Rightarrow> world \<Rightarrow> world" where
  "exit_handler value32 w =
     (if value32 = 0x54495845 then w\<lparr>programEnd := True, arm7Exiting := True\<rparr> else w)"

text \<open>
  \<^verbatim>\<open>batteryLevel = value32 & 0xF; charging = (value32 & BIT(7)) != 0;\<close>
\<close>

definition battery_handler :: "u32 \<Rightarrow> world \<Rightarrow> world" where
  "battery_handler value32 w =
     w\<lparr>batteryLevel := ucast (value32 AND 0xF),
       charging := (value32 AND push_bit 7 1 \<noteq> 0)\<rparr>"

definition dispatch :: "fifo_channel \<times> u32 \<Rightarrow> world \<Rightarrow> world" where
  "dispatch m w =
     (case fst m of
        FIFO_USER_01 \<Rightarrow> exit_handler (snd m) w
      | FIFO_USER_02 \<Rightarrow> w
      | FIFO_USER_03 \<Rightarrow> battery_handler (snd m) w)"

text \<open>
  Reading a volatile flag: the messages that arrived since the last read have been
  handled by then.
\<close>

definition observe :: "world \<Rightarrow> world" where
  "observe w =
     (case irqs w of
        [] \<Rightarrow> w
      | b # bs \<Rightarrow> foldl (\<lambda>v m. dispatch m v) (w\<lparr>irqs := bs\<rparr>) b)"

subsection \<open>Leaving the program\<close>

text \<open>
  \<open>cleanup\<close> sets \<open>programEnd\<close>, unmounts, shuts the driver down, tells the other
  processor and then spins \<^verbatim>\<open>while (arm7Exiting)\<close>. No handler ever resets that flag,
  so the loop is left at its first test or never: the result says whether it returns.
\<close>

definition cleanup :: "world \<Rightarrow> bool \<times> world" where
  "cleanup w =
     (let w1 = w\<lparr>programEnd := True\<rparr>;
          w2 = emit (FatUnmount ''nand:'') w1;
          w3 = emit (Nandio Shutdown) w2;
          w4 = emit (FifoSendValue32 FIFO_USER_02 0x54495845) w3;
          w5 = observe w4
      in (\<not> arm7Exiting w5, w5))"

definition exitWithMessage :: "string \<Rightarrow> world \<Rightarrow> outcome \<times> world" where
  "exitWithMessage message w =
     (let w1 = emit (MessageBox message) w;
          (back, w2) = cleanup w1
      in (if back then Exited message else Blocked, w2))"

definition error_prefix :: string where
  "error_prefix = CHR 0x1B # ''[31mError:'' @ CHR 0x1B # ''[33m ''"

definition abortWithError :: "string \<Rightarrow> world \<Rightarrow> outcome \<times> world" where
  "abortWithError error w = exitWithMessage (error_prefix @ error) w"

definition leave :: "outcome \<times> world \<Rightarrow> (outcome + 'a) \<times> world" where
  "leave r = (Inl (fst r), snd r)"

subsection \<open>Formatting\<close>

text \<open>\<^verbatim>\<open>std::format("{:08x}", launcherTid)\<close> and \<^verbatim>\<open>std::format("{}", n)\<close> for \<open>n \<ge> 0\<close>.\<close>

definition hex_digit :: "nat \<Rightarrow> char" where
  "hex_digit n = ''0123456789abcdef'' ! (n mod 16)"

definition hex8 :: "u32 \<Rightarrow> string" where
  "hex8 v = map (\<lambda>k. hex_digit (unat (drop_bit k v AND 0xF))) [28, 24, 20, 16, 12, 8, 4, 0]"

fun dec :: "nat \<Rightarrow> string" where
  "dec n = (if n < 10 then [hex_digit n] else dec (n div 10) @ [hex_digit (n mod 10)])"

declare dec.simps [simp del]

definition starts_with :: "string \<Rightarrow> string \<Rightarrow> bool" where
  "starts_with p s = (take (length p) s = p)"

definition ends_with :: "string \<Rightarrow> string \<Rightarrow> bool" where
  "ends_with p s = (length p \<le> length s \<and> drop (length s - length p) s = p)"

subsection \<open>\<open>getSourceAndTargetTmds\<close>\<close>

text \<open>
  \<^verbatim>\<open>fseek(file, 0xA0, SEEK_SET); fread(&launcherTid, sizeof(uint32_t), 1, file);\<close>
  The result of \<open>fread\<close> is not checked: the bytes the file has from offset \<open>0xA0\<close> (at
  most four) are stored at the start of the variable, and the rest of it keeps whatever
  it held. The processor is little-endian, so the first byte read is the least
  significant one.
\<close>

definition word_of_le :: "string \<Rightarrow> u32" where
  "word_of_le cs = foldr (\<lambda>c acc. of_char c + 256 * acc) cs 0"

definition read_launcherTid :: "env \<Rightarrow> string \<Rightarrow> u32" where
  "read_launcherTid E content =
     (let got = take 4 (drop 0xA0 content);
          kept = push_bit (8 * length got) (drop_bit (8 * length got) (uninit E))
      in word_of_le got OR kept)"

datatype scan = Found nat string | Unsupported nat | NotFound

text \<open>
  The \<open>readdir\<close> loop. The version is
  \<^verbatim>\<open>static_cast<uint16_t>(static_cast<unsigned char>(filename[7]) - static_cast<unsigned char>('0'))\<close>:
  a difference of two \<open>int\<close>s, reduced modulo \<open>2^16\<close>. A hit returns
  \<^verbatim>\<open>256 * launcher_app_version\<close> and the file name.
\<close>

fun scan_dir :: "(bool \<times> string) list \<Rightarrow> scan" where
  "scan_dir [] = NotFound"
| "scan_dir ((is_dir, filename) # rest) =
     (if is_dir then scan_dir rest
      else if length filename \<noteq> 12 \<or> \<not> ends_with ''.app'' filename
              \<or> \<not> starts_with ''0000000'' filename then scan_dir rest
      else (let launcher_app_version =
                  nat ((of_char (filename ! 7) - of_char CHR ''0'') mod 2 ^ 16)
            in if launcher_app_version > 7 then Unsupported launcher_app_version
               else Found (256 * launcher_app_version) filename))"

definition getSourceAndTargetTmds ::
  "env \<Rightarrow> world \<Rightarrow> (outcome + string \<times> string \<times> string) \<times> world" where
  "getSourceAndTargetTmds E w =
     (case files w ''nand:/sys/HWINFO_S.dat'' of
        None \<Rightarrow> leave (abortWithError ''Could not open HWINFO_S.dat'' w)
      | Some hwinfo \<Rightarrow>
          (let launcher_tmd_str = hex8 (read_launcherTid E hwinfo);
               launcher_content_path =
                 ''nand:/title/00030017/'' @ launcher_tmd_str @ ''/content''
           in case dirs w launcher_content_path of
                None \<Rightarrow>
                  leave (abortWithError
                    (''Could not open launcher title directory ('' @ launcher_content_path @ '')'') w)
              | Some entries \<Rightarrow>
                  (case scan_dir entries of
                     Unsupported v \<Rightarrow>
                       leave (abortWithError
                         (''Found an unsupported launcher version: '' @ dec v) w)
                   | NotFound \<Rightarrow> leave (abortWithError ''Launcher app not found'' w)
                   | Found expected_launcher_version launcher_app_name \<Rightarrow>
                       (Inr (''nitro:/'' @ launcher_tmd_str @ ''/tmd.''
                               @ dec expected_launcher_version,
                             launcher_content_path @ ''/title.tmd'',
                             launcher_content_path @ ''/'' @ launcher_app_name), w))))"

subsection \<open>\<open>checkTmdAndReadBuffer\<close>\<close>

definition msg_sha1_parse :: string where
  "msg_sha1_parse = ''Failed to parse good tmd'' @ [CHR 0x27] @ ''s sha1 file''"

definition msg_tmd_parse :: string where
  "msg_tmd_parse = ''Failed to parse tmd'' @ [CHR 0x27] @ ''s sha1 file''"

definition msg_hash_mismatch :: "string \<Rightarrow> string" where
  "msg_hash_mismatch path =
     ''Source tmd'' @ [CHR 0x27] @ ''s hash doesn'' @ [CHR 0x27] @ ''t match ('' @ path @ '')''"

definition msg_tmd_correct :: string where
  "msg_tmd_correct = ''The tmd is correct, no further action needed''"

text \<open>
  The first lambda of the function: the expected digest, from the first 40 characters
  of the file \<open>sourceTmdPath.sha1\<close>.
\<close>

definition expectedSha1Tmd :: "env \<Rightarrow> string \<Rightarrow> world \<Rightarrow> (string + string)" where
  "expectedSha1Tmd E sourceTmdPath w =
     (case files w (sourceTmdPath @ ''.sha1'') of
        None \<Rightarrow> Inl ''Tmd sha1 not found''
      | Some content \<Rightarrow>
          if length content < 40 then Inl msg_sha1_parse
          else Inr (digestOfHex E (take 40 content)))"

text \<open>The second lambda: the digest of the target file, by \<open>calculateFileSha1\<close>.\<close>

definition actualSha1Tmd :: "env \<Rightarrow> string \<Rightarrow> world \<Rightarrow> (string + string)" where
  "actualSha1Tmd E targetTmdPath w =
     (case files w targetTmdPath of
        None \<Rightarrow> Inl (''Failed to open target tmd ('' @ targetTmdPath @ '')'')
      | Some content \<Rightarrow>
          (case calculateFileSha1 E content of
             None \<Rightarrow> Inl msg_tmd_parse
           | Some d \<Rightarrow> Inr d))"

text \<open>
  The third lambda, then the comparison of the two digests. \<open>fread\<close> of one item of 520
  bytes returns 1 only if all 520 bytes were there.
\<close>

definition checkTmdAndReadBuffer ::
  "env \<Rightarrow> string \<Rightarrow> string \<Rightarrow> world \<Rightarrow> (outcome + string) \<times> world" where
  "checkTmdAndReadBuffer E sourceTmdPath targetTmdPath w =
     (case expectedSha1Tmd E sourceTmdPath w of
        Inl e \<Rightarrow> leave (abortWithError e w)
      | Inr expected \<Rightarrow>
     (case actualSha1Tmd E targetTmdPath w of
        Inl e \<Rightarrow> leave (abortWithError e w)
      | Inr actual \<Rightarrow>
     (case files w sourceTmdPath of
        None \<Rightarrow>
          leave (abortWithError (''Failed to open source tmd ('' @ sourceTmdPath @ '')'') w)
      | Some content \<Rightarrow>
          if length content < 520 then
            leave (abortWithError (''Failed to read source tmd ('' @ sourceTmdPath @ '')'') w)
          else
            (let ret = take 520 content;
                 w1 = emit (SwiSHA1Calc ret) w;
                 digest = sha1 E ret
             in if digest \<noteq> expected then
                  leave (abortWithError (msg_hash_mismatch sourceTmdPath) w1)
                else if expected = actual then
                  leave (exitWithMessage msg_tmd_correct w1)
                else (Inr ret, w1)))))"

subsection \<open>\<open>main\<close>\<close>

definition msg_failed :: "string \<Rightarrow> string \<Rightarrow> string" where
  "msg_failed what verdict =
     what @ CHR 0x1B # ''[31m'' @ verdict @ CHR 0x0A # CHR 0x1B # ''[47m''"

definition msg_battery :: string where
  "msg_battery =
     CHR 0x1B # ''[47mBattery is too low!'' @ CHR 0x0A # ''Please plug in the console.''
       @ CHR 0x0A # CHR 0x0A # ''Continue?''"

definition msg_warning :: string where
  "msg_warning =
     CHR 0x1B # ''[41mWARNING:'' @ CHR 0x1B # ''[47m This tool can write to'' @ CHR 0x0A #
     ''your internal NAND!'' @ CHR 0x0A # CHR 0x0A #
     ''This always has a risk, albeit'' @ CHR 0x0A #
     ''low, of '' @ CHR 0x1B # ''[41mbricking'' @ CHR 0x1B # ''[47m your system'' @ CHR 0x0A #
     ''and should be done with caution!'' @ CHR 0x0A # CHR 0x0A #
     ''If you have not yet done so,'' @ CHR 0x0A #
     ''you should make a NAND backup.''"

definition msg_restore :: string where
  "msg_restore =
     ''Do you want to restore'' @ CHR 0x0A # ''the launcher'' @ [CHR 0x27] @ ''s tmd?''"

text \<open>
  \<^verbatim>\<open>while (batteryLevel < 7 && !charging) { if (choiceBox(...) == NO) return 0; }\<close>
  Each turn reads the flags and, while the battery is low, waits for an answer. The
  answers still to come are the first argument; with none left the box waits for ever.
  What is left of them is stored back when the loop ends.
\<close>

fun battery_wait :: "choice list \<Rightarrow> world \<Rightarrow> (outcome + unit) \<times> world" where
  "battery_wait [] w =
     (let w1 = observe w
      in if batteryLevel w1 < 7 \<and> \<not> charging w1
         then (Inl Blocked, emit (ChoiceBox msg_battery) (w1\<lparr>choices := []\<rparr>))
         else (Inr (), w1\<lparr>choices := []\<rparr>))"
| "battery_wait (c # cs) w =
     (let w1 = observe w
      in if batteryLevel w1 < 7 \<and> \<not> charging w1
         then (let w2 = emit (ChoiceBox msg_battery) w1
               in if c = NO then (Inl Returned, w2\<lparr>choices := cs\<rparr>)
                  else battery_wait cs w2)
         else (Inr (), w1\<lparr>choices := c # cs\<rparr>))"

text \<open>
  \<^verbatim>\<open>argc > 0 ? argv[0] : deviceList ? deviceList->appname : "sd:/ntrboot.nds"\<close>
\<close>

definition applicationPath :: "env \<Rightarrow> string" where
  "applicationPath E =
     (case argv0 E of
        Some a \<Rightarrow> a
      | None \<Rightarrow> (case deviceListAppname E of Some a \<Rightarrow> a | None \<Rightarrow> ''sd:/ntrboot.nds''))"

text \<open>Lines 167 to 250 of \<open>main\<close>: everything before \<open>checkTmdAndReadBuffer\<close>.\<close>

definition main_prelude ::
  "env \<Rightarrow> world \<Rightarrow> (outcome + string \<times> string \<times> string) \<times> world" where
  "main_prelude E w =
     (if \<not> isDSiMode E then leave (abortWithError ''This app is exclusively for DSi.'' w)
      else if \<not> fatInitDefault E then
        leave (abortWithError (msg_failed ''fatInitDefault()...'' ''Failed'') w)
      else if \<not> fatMountSimple E then
        leave (abortWithError (msg_failed ''nand init '' ''failed'') w)
      else
        (case battery_wait (choices w) w of
           (Inl out, w1) \<Rightarrow> (Inl out, w1)
         | (Inr _, w1) \<Rightarrow>
             if \<not> nitroFSInit E (applicationPath E) then
               leave (abortWithError (msg_failed ''nitroFSInit()...'' ''Failed'') w1)
             else
               (case getSourceAndTargetTmds E w1 of
                  (Inl out, w2) \<Rightarrow> (Inl out, w2)
                | (Inr paths, w2) \<Rightarrow> (Inr paths, emit (MessageBox msg_warning) w2))))"

text \<open>
  Lines 254 to 279 of \<open>main\<close>: the question, the unlock, and the write.
  \<^item> \<open>choiceBox\<close> waits for an answer; with none left the program stays there.
  \<^item> The result of \<^verbatim>\<open>fopen(targetTmdPath.data(), "r+b")\<close> is not tested before
    \<^verbatim>\<open>fileno(targetTmd)\<close>: a null stream is undefined behaviour.
  \<^item> \<open>ftruncate\<close> to 520 cuts a longer file and pads a shorter one with zero bytes.
  \<^item> \<open>fwrite\<close> of one item of \<open>size()\<close> bytes at offset 0 hands the bytes to the
    stream; its result \<open>written\<close> is the only thing the program tests.
  \<^item> \<open>fclose\<close> flushes the stream: the bytes that reach the file replace its start.
    The result of \<open>fclose\<close> is discarded.
\<close>

definition main_restore ::
  "env \<Rightarrow> string \<Rightarrow> string \<Rightarrow> string \<Rightarrow> world \<Rightarrow> outcome \<times> world" where
  "main_restore E targetTmdPath launcherAppPath correctTmdBuffer w =
     (let w1 = emit (ChoiceBox msg_restore) w
      in case choices w1 of
           [] \<Rightarrow> (Blocked, w1)
         | c # cs \<Rightarrow>
     (let w2 = w1\<lparr>choices := cs\<rparr>
      in if c = NO then exitWithMessage ''Aborted'' w2 else
     (let w3 = emit (Nandio Unlock_writing) w2
      in if \<not> unlock_ok E then abortWithError ''Failed to mount the nand as writable'' w3 else
     (let w4 = emit (ToggleFileReadOnly targetTmdPath False) w3
      in if \<not> toggle_ok E targetTmdPath then
           abortWithError ''Failed to mark target tmd as writable'' w4 else
     (let w5 = emit (ToggleFileReadOnly launcherAppPath False) w4
      in if \<not> toggle_ok E launcherAppPath then
           abortWithError ''Failed to mark launcher app as writable'' w5 else
     (case (if fopen_update_ok E then files w5 targetTmdPath else None) of
        None \<Rightarrow> (Undefined, w5)
      | Some old \<Rightarrow>
     (let w6 = emit (Ftruncate targetTmdPath 520) w5
      in if \<not> ftruncate_ok E then
           abortWithError ''Failed to truncate target tmd as right size'' w6 else
     (let sized = take 520 (old @ replicate 520 (CHR 0x00));
          w7 = emit (Fwrite targetTmdPath correctTmdBuffer) w6;
          written = fwrite_count E;
          taken = min (length correctTmdBuffer) (fwrite_room E);
          w8 = w7\<lparr>files := (files w7)
                  (targetTmdPath \<mapsto> take taken correctTmdBuffer @ drop taken sized)\<rparr>
      in if written \<noteq> 1 then abortWithError ''Faied to write tmd'' w8
         else exitWithMessage ''Done'' w8))))))))"

definition main :: "env \<Rightarrow> world \<Rightarrow> outcome \<times> world" where
  "main E w =
     (case main_prelude E w of
        (Inl out, w1) \<Rightarrow> (out, w1)
      | (Inr (sourceTmdPath, targetTmdPath, launcherAppPath), w1) \<Rightarrow>
          (case checkTmdAndReadBuffer E sourceTmdPath targetTmdPath w1 of
             (Inl out, w2) \<Rightarrow> (out, w2)
           | (Inr correctTmdBuffer, w2) \<Rightarrow>
               main_restore E targetTmdPath launcherAppPath correctTmdBuffer w2))"

text \<open>
  The state at program start: the initialisers of the four globals, nothing called yet.
\<close>

definition boot ::
  "(string \<rightharpoonup> string) \<Rightarrow> (string \<rightharpoonup> (bool \<times> string) list) \<Rightarrow>
     choice list \<Rightarrow> (fifo_channel \<times> u32) list list \<Rightarrow> world" where
  "boot fs ds cs qs =
     \<lparr>programEnd = False, arm7Exiting = False, charging = False, batteryLevel = 0,
      files = fs, dirs = ds, trace = [], choices = cs, irqs = qs\<rparr>"

subsection \<open>Vocabulary for traces\<close>

text \<open>The calls that change what is stored on the NAND file system.\<close>

fun nand_write :: "event \<Rightarrow> bool" where
  "nand_write (ToggleFileReadOnly _ _) = True"
| "nand_write (Ftruncate _ _) = True"
| "nand_write (Fwrite _ _) = True"
| "nand_write _ = False"

fun is_fwrite :: "event \<Rightarrow> bool" where
  "is_fwrite (Fwrite _ _) = True"
| "is_fwrite _ = False"

text \<open>
  Calls that neither touch the NAND nor the write gate, nor compute a digest, nor report
  success.
\<close>

fun benign :: "event \<Rightarrow> bool" where
  "benign (MessageBox m) = (m \<noteq> ''Done'')"
| "benign (ChoiceBox _) = True"
| "benign (Nandio c) = (c = Shutdown)"
| "benign (FatUnmount _) = True"
| "benign (FifoSendValue32 _ _) = True"
| "benign (SwiSHA1Calc _) = False"
| "benign (ToggleFileReadOnly _ _) = False"
| "benign (Ftruncate _ _) = False"
| "benign (Fwrite _ _) = False"

text \<open>The calls of \<open>exitWithMessage\<close>, of the prelude when it succeeds, and of lines 254 to 269.\<close>

definition goodbye :: "string \<Rightarrow> event list" where
  "goodbye m = [MessageBox m, FatUnmount ''nand:'', Nandio Shutdown,
                FifoSendValue32 FIFO_USER_02 0x54495845]"

definition prologue :: "nat \<Rightarrow> event list" where
  "prologue n = replicate n (ChoiceBox msg_battery) @ [MessageBox msg_warning]"

definition restore_prefix :: "string \<Rightarrow> string \<Rightarrow> event list" where
  "restore_prefix t a =
     [ChoiceBox msg_restore, Nandio Unlock_writing, ToggleFileReadOnly t False,
      ToggleFileReadOnly a False, Ftruncate t 520]"

text \<open>
  The start of a run in which \<open>cleanup\<close> will not wait: \<open>arm7Exiting\<close> is clear and
  none of the messages to come is the value \<open>0x54495845\<close> on \<open>FIFO_USER_01\<close>.
\<close>

definition no_exit_signal :: "world \<Rightarrow> bool" where
  "no_exit_signal w =
     (\<not> arm7Exiting w \<and> (\<forall>b\<in>set (irqs w). (FIFO_USER_01, 0x54495845) \<notin> set b))"

text \<open>
  The message \<open>checkTmdAndReadBuffer\<close> ends with when the expected digest and the digest
  of the target are both \<open>d\<close>: lines 140 to 160, the third lambda and the two
  comparisons after it.
\<close>

definition source_verdict :: "env \<Rightarrow> string \<Rightarrow> string \<Rightarrow> world \<Rightarrow> string" where
  "source_verdict E s d w =
     (case files w s of
        None \<Rightarrow> error_prefix @ ''Failed to open source tmd ('' @ s @ '')''
      | Some content \<Rightarrow>
          if length content < 520 then error_prefix @ ''Failed to read source tmd ('' @ s @ '')''
          else if sha1 E (take 520 content) \<noteq> d then error_prefix @ msg_hash_mismatch s
          else msg_tmd_correct)"

section \<open>The block device driver behind \<^verbatim>\<open>nandio.h\<close>\<close>

text \<open>
  \<^verbatim>\<open>nandio.h\<close> declares the driver; the file that implements it, with the cipher and
  the access to the medium, is not among the sources at hand. What follows is therefore
  written from the specification, section by section.
\<close>

subsection \<open>Cipher engine (specification 4.1)\<close>

text \<open>
  Modelled from the spec: the key stream of the cipher engine, whose code is missing. The
  cipher state is derived once from the device key and yields, for a sector index and a
  byte offset inside the sector, one byte of key stream. The specification does not say
  how, so the key stream is a parameter of everything below.
\<close>

type_synonym keystream = "nat \<Rightarrow> nat \<Rightarrow> u8"

text \<open>
  Modelled from the spec: the scratch buffer of the cipher engine, whose code is missing.
  ``Must not allocate per-call state beyond a fixed-size scratch buffer (bounded,
  reusable ...) --- the constant governing this in the original system is 64 bytes of
  scratch'': the buffer holds \<open>CRYPT_BUF_LEN\<close> bytes of key stream, from a given offset
  of a given sector.
\<close>

definition scratch_fill :: "keystream \<Rightarrow> nat \<Rightarrow> nat \<Rightarrow> u8 list" where
  "scratch_fill ks i off = map (\<lambda>k. ks i (off + k)) [0..<CRYPT_BUF_LEN]"

text \<open>
  Modelled from the spec: the body of the cipher engine's \<open>transform\<close>, whose code is
  missing. ``Pure function of (device key, sectorIndex, buffer); same operation used for
  encrypt and decrypt (stream-cipher symmetry)'': the buffer is combined with the key
  stream of its sector by exclusive or, one scratch buffer at a time, starting at a given
  offset of the sector.
\<close>

function transform_from :: "keystream \<Rightarrow> nat \<Rightarrow> nat \<Rightarrow> u8 list \<Rightarrow> u8 list" where
  "transform_from ks i off buf =
     (if buf = [] then []
      else map2 (XOR) (take CRYPT_BUF_LEN buf) (scratch_fill ks i off)
             @ transform_from ks i (off + CRYPT_BUF_LEN) (drop CRYPT_BUF_LEN buf))"
  by pat_completeness auto
termination
  by (relation "measure (\<lambda>(ks, i, off, buf). length buf)") (auto simp: CRYPT_BUF_LEN_def)

declare transform_from.simps [simp del]

text \<open>
  Modelled from the spec: the operation \<open>transform(sectorIndex, buffer)\<close> of the cipher
  engine, whose code is missing: the whole buffer, from offset 0 of its sector.
\<close>

definition transform :: "keystream \<Rightarrow> nat \<Rightarrow> u8 list \<Rightarrow> u8 list" where
  "transform ks i buf = transform_from ks i 0 buf"

text \<open>
  Modelled from the spec: the state of the cipher engine, whose code is missing. ``Cipher
  state derived once from a device key'', here the key stream, and the one piece of
  working storage the engine may have: ``must not allocate per-call state beyond a
  fixed-size scratch buffer (bounded, reusable ...)''.
\<close>

record cipher_engine =
  key_stream :: keystream
  scratch :: "u8 list"

text \<open>
  Modelled from the spec: setting up the cipher engine, whose code is missing: the cipher
  state is derived, the scratch buffer of \<open>CRYPT_BUF_LEN\<close> bytes is there and holds
  nothing yet.
\<close>

definition cipher_init :: "keystream \<Rightarrow> cipher_engine" where
  "cipher_init ks = \<lparr>key_stream = ks, scratch = replicate CRYPT_BUF_LEN 0\<rparr>"

text \<open>
  Modelled from the spec: one turn of the missing engine's loop. The scratch buffer is
  refilled with key stream for the given offset of the sector, overwriting what it held,
  and the piece of input, at most one scratch buffer long, is combined with it.
\<close>

definition engine_step ::
  "cipher_engine \<Rightarrow> nat \<Rightarrow> nat \<Rightarrow> u8 list \<Rightarrow> u8 list \<times> cipher_engine" where
  "engine_step e i off piece =
     (let e1 = e\<lparr>scratch := scratch_fill (key_stream e) i off\<rparr>
      in (map2 (XOR) piece (scratch e1), e1))"

text \<open>
  Modelled from the spec: \<open>transform\<close> as the missing engine runs it, with its state
  passed through: the buffer is taken \<open>CRYPT_BUF_LEN\<close> bytes at a time, one turn of the
  loop for each piece, every turn using the one scratch buffer again.
\<close>

function engine_transform_from ::
  "cipher_engine \<Rightarrow> nat \<Rightarrow> nat \<Rightarrow> u8 list \<Rightarrow> u8 list \<times> cipher_engine" where
  "engine_transform_from e i off buf =
     (if buf = [] then ([], e)
      else (let s = engine_step e i off (take CRYPT_BUF_LEN buf);
                r = engine_transform_from (snd s) i (off + CRYPT_BUF_LEN)
                      (drop CRYPT_BUF_LEN buf)
            in (fst s @ fst r, snd r)))"
  by pat_completeness auto
termination
  by (relation "measure (\<lambda>(e, i, off, buf). length buf)") (auto simp: CRYPT_BUF_LEN_def)

declare engine_transform_from.simps [simp del]

text \<open>
  Modelled from the spec: a call of \<open>transform(sectorIndex, buffer)\<close> on the missing
  engine: the result and the engine as the call leaves it.
\<close>

definition engine_transform ::
  "cipher_engine \<Rightarrow> nat \<Rightarrow> u8 list \<Rightarrow> u8 list \<times> cipher_engine" where
  "engine_transform e i buf = engine_transform_from e i 0 buf"

subsection \<open>Raw medium adapter (specification 4.4)\<close>

text \<open>
  Modelled from the spec: the raw medium adapter, whose code is missing. The medium is a
  number of sectors holding bytes as they are stored (ciphered); \<open>physicalRead\<close> and
  \<open>physicalWrite\<close> ``both fail with a hardware/I-O error on controller failure'': the
  sectors at which the controller fails are listed in \<open>faulty\<close>. Writes are
  sector-atomic and go in order, so a failure leaves the sectors before it written.
  \<open>reopen_ok\<close> says whether the medium can be reopened for writing.
\<close>

record medium =
  cells :: "nat \<Rightarrow> u8 list"
  sectorCount :: nat
  faulty :: "nat list"
  reopen_ok :: bool

text \<open>
  Modelled from the spec: \<open>physicalRead(sectorIndex, count)\<close> of the raw medium adapter,
  whose code is missing: the stored bytes of \<open>count\<close> sectors, or a failure when the
  controller fails at one of them.
\<close>

definition physicalRead :: "medium \<Rightarrow> nat \<Rightarrow> nat \<Rightarrow> u8 list list option" where
  "physicalRead m sectorIndex count =
     (if list_ex (\<lambda>j. j \<in> set (faulty m)) [sectorIndex..<sectorIndex + count] then None
      else Some (map (cells m) [sectorIndex..<sectorIndex + count]))"

text \<open>
  Modelled from the spec: \<open>physicalWrite(sectorIndex, count, bytes)\<close> of the raw medium
  adapter, whose code is missing: sector after sector, stopping at the first failure.
\<close>

fun physicalWrite :: "medium \<Rightarrow> nat \<Rightarrow> u8 list list \<Rightarrow> bool \<times> medium" where
  "physicalWrite m sectorIndex [] = (True, m)"
| "physicalWrite m sectorIndex (s # ss) =
     (if sectorIndex \<in> set (faulty m) then (False, m)
      else physicalWrite (m\<lparr>cells := (cells m)(sectorIndex := s)\<rparr>) (Suc sectorIndex) ss)"

subsection \<open>Driver state (specification 3 and 4.2)\<close>

text \<open>
  Modelled from the spec: the write-protection gate of the driver, whose code is missing;
  ``a two-state flag (locked / unlocked)''.
\<close>

datatype gate = Locked | Unlocked

text \<open>
  Modelled from the spec: the errors of the driver, whose code is missing; the taxonomy of
  specification 7.
\<close>

datatype drv_error = WriteProtected | RangeError | MediumIOError | PartialMirrorFailure

text \<open>
  Modelled from the spec: what a mutating operation of the driver, whose code is missing,
  reports; ``all failures are returned to the immediate caller as explicit result
  values''.
\<close>

datatype status = Success | Failure drv_error

text \<open>
  Modelled from the spec: the state of the driver, whose code is missing. The
  write-protection gate, the cipher state, the medium, the sector size, the two table
  copies ``at fixed, disjoint sector ranges'' (start of the primary, start of the backup,
  their common length in sectors), the offset recorded by \<open>setSignatureFixOffset\<close>, and
  the ``known-valid value'' of the marker.
\<close>

record driver =
  gate :: gate
  keys :: keystream
  med :: medium
  sectorSize :: nat
  primaryStart :: nat
  backupStart :: nat
  tableLen :: nat
  sigOffset :: "nat option"
  validMarker :: u8

text \<open>
  Modelled from the spec: the layout of the allocation table pair, which the missing code
  fixes: ``two copies (primary, backup) ... at fixed, disjoint sector ranges on the
  medium''.
\<close>

definition layout_ok :: "driver \<Rightarrow> bool" where
  "layout_ok d =
     (primaryStart d + tableLen d \<le> sectorCount (med d) \<and>
      backupStart d + tableLen d \<le> sectorCount (med d) \<and>
      (primaryStart d + tableLen d \<le> backupStart d \<or>
       backupStart d + tableLen d \<le> primaryStart d))"

text \<open>
  Modelled from the spec: the test of the missing code for ``a write into the primary table
  region''.
\<close>

definition in_primary :: "driver \<Rightarrow> nat \<Rightarrow> bool" where
  "in_primary d j = (primaryStart d \<le> j \<and> j < primaryStart d + tableLen d)"

text \<open>
  Modelled from the spec: the sector of the backup copy that mirrors a sector of the
  primary copy in the missing code: the same position in the other range.
\<close>

definition backup_of :: "driver \<Rightarrow> nat \<Rightarrow> nat" where
  "backup_of d j = backupStart d + (j - primaryStart d)"

text \<open>
  Modelled from the spec: \<open>unlockWriting\<close> of the driver, whose code is missing. It
  ``succeeds unconditionally unless the underlying medium cannot be reopened for writing,
  in which case it fails and the gate remains Locked''.
\<close>

definition unlockWriting :: "driver \<Rightarrow> status \<times> driver" where
  "unlockWriting d =
     (if reopen_ok (med d) then (Success, d\<lparr>gate := Unlocked\<rparr>)
      else (Failure MediumIOError, d))"

text \<open>
  Modelled from the spec: \<open>lockWriting\<close> of the driver, whose code is missing;
  ``always succeeds''.
\<close>

definition lockWriting :: "driver \<Rightarrow> status \<times> driver" where
  "lockWriting d = (Success, d\<lparr>gate := Locked\<rparr>)"

text \<open>
  Modelled from the spec: \<open>shutdown\<close> of the driver, whose code is missing; it ``forces
  the gate to Locked''. With every mirroring step finished before its \<open>writeSectors\<close>
  returns, nothing is pending at that point.
\<close>

definition shutdown :: "driver \<Rightarrow> driver" where
  "shutdown d = d\<lparr>gate := Locked\<rparr>"

text \<open>
  Modelled from the spec: \<open>setSignatureFixOffset\<close> of the driver, whose code is missing;
  it ``records the offset ... does not itself mutate storage''.
\<close>

definition setSignatureFixOffset :: "nat \<Rightarrow> driver \<Rightarrow> driver" where
  "setSignatureFixOffset offset d = d\<lparr>sigOffset := Some offset\<rparr>"

text \<open>
  Modelled from the spec: \<open>reportGeometry\<close> of the driver, whose code is missing; the
  ``static device description''.
\<close>

definition reportGeometry :: "driver \<Rightarrow> nat \<times> nat" where
  "reportGeometry d = (sectorSize d, sectorCount (med d))"

subsection \<open>Sector input and output (specification 4.2 and 4.3)\<close>

text \<open>
  Modelled from the spec: \<open>readSectors\<close> of the driver, whose code is missing. ``Reads
  count contiguous sectors from the medium via the Raw Medium Adapter, then applies the
  Cipher Engine's inverse transform to each sector independently (sector index is the
  per-sector tweak), and returns the concatenated plaintext. Fails with a medium-I/O
  error if the adapter cannot satisfy the read; fails with a range error if the request
  exceeds device geometry.'' The gate is not consulted.
\<close>

definition readSectors :: "driver \<Rightarrow> nat \<Rightarrow> nat \<Rightarrow> drv_error + u8 list" where
  "readSectors d startIndex count =
     (if sectorCount (med d) < startIndex + count then Inl RangeError
      else case physicalRead (med d) startIndex count of
             None \<Rightarrow> Inl MediumIOError
           | Some stored \<Rightarrow>
               Inr (concat (map2 (transform (keys d)) [startIndex..<startIndex + count] stored)))"

text \<open>
  Modelled from the spec: how the missing code cuts the caller's data into sectors; the
  \<open>k\<close>-th sector of a buffer holding \<open>count * sectorSize\<close> bytes.
\<close>

definition sector_of :: "nat \<Rightarrow> u8 list \<Rightarrow> nat \<Rightarrow> u8 list" where
  "sector_of n data k = take n (drop (k * n) data)"

text \<open>
  Modelled from the spec: the table-mirroring step (4.3) of the driver, whose code is
  missing. After the new contents are on the medium, ``copy the just-written plaintext
  into the backup table region and write it (ciphered) as well''; ``a failure at step 2
  is surfaced as a write error'', namely \<open>PartialMirrorFailure\<close>, with no rollback. The
  argument lists the sectors just written, index and plaintext; those inside the primary
  copy go to the same position of the backup copy, ciphered for that position.
\<close>

fun mirror :: "driver \<Rightarrow> (nat \<times> u8 list) list \<Rightarrow> status \<times> driver" where
  "mirror d [] = (Success, d)"
| "mirror d ((j, plain) # rest) =
     (if in_primary d j then
        (case physicalWrite (med d) (backup_of d j)
                [transform (keys d) (backup_of d j) plain] of
           (False, m) \<Rightarrow> (Failure PartialMirrorFailure, d\<lparr>med := m\<rparr>)
         | (True, m) \<Rightarrow> mirror (d\<lparr>med := m\<rparr>) rest)
      else mirror d rest)"

text \<open>
  Modelled from the spec: \<open>writeSectors\<close> of the driver, whose code is missing.
  ``Requires gate = Unlocked; requires len(data) == count * sectorSize. For each sector,
  applies the Cipher Engine's forward transform, then issues the physical write via the
  adapter. If any sector in the range falls within the allocation-table region, the driver
  additionally performs the table-mirroring step before reporting success. Fails with
  write-protected if locked, with a medium-I/O error on adapter failure (partial writes
  are possible on failure), with a range error if out of geometry.'' All mutating
  operations ``fail immediately while locked'', so the gate is tested first. The
  specification names no error for data of the wrong length; the range error is used.
\<close>

definition writeSectors :: "driver \<Rightarrow> nat \<Rightarrow> nat \<Rightarrow> u8 list \<Rightarrow> status \<times> driver" where
  "writeSectors d startIndex count data =
     (if gate d = Locked then (Failure WriteProtected, d)
      else if sectorCount (med d) < startIndex + count \<or> length data \<noteq> count * sectorSize d
      then (Failure RangeError, d)
      else
        (let plain = map (sector_of (sectorSize d) data) [0..<count];
             ciphered = map2 (transform (keys d)) [startIndex..<startIndex + count] plain
         in case physicalWrite (med d) startIndex ciphered of
              (False, m) \<Rightarrow> (Failure MediumIOError, d\<lparr>med := m\<rparr>)
            | (True, m) \<Rightarrow>
                mirror (d\<lparr>med := m\<rparr>) (zip [startIndex..<startIndex + count] plain)))"

text \<open>
  Modelled from the spec: \<open>forceTableRepair\<close> of the driver, whose code is missing.
  ``Requires Unlocked. ... re-derives the backup table copy from the primary ... and
  rewrites the corruption-signature marker at the recorded offset to its known-valid
  value.'' Which copy wins is an open question of the specification; its own example,
  ``primary always wins'', is taken: the primary copy is read, the marker is set in it,
  and the result is written back through \<open>writeSectors\<close>, which mirrors it.
\<close>

definition forceTableRepair :: "driver \<Rightarrow> status \<times> driver" where
  "forceTableRepair d =
     (if gate d = Locked then (Failure WriteProtected, d)
      else case readSectors d (primaryStart d) (tableLen d) of
             Inl e \<Rightarrow> (Failure e, d)
           | Inr table \<Rightarrow>
               writeSectors d (primaryStart d) (tableLen d)
                 (case sigOffset d of
                    None \<Rightarrow> table
                  | Some offset \<Rightarrow>
                      if offset < length table then table[offset := validMarker d]
                      else table))"

section \<open>Concrete runs\<close>

text \<open>
  A console whose launcher title is \<open>484e4145\<close>, version 2 (\<open>00000002.app\<close>). The two
  digest functions are stand-ins: any functions do, the program only compares their
  results. The stream takes the buffer (\<open>fwrite\<close> returns 1); the parameter is the
  number of bytes that reach the target file when the stream is flushed.
\<close>

definition demo_sha1 :: "string \<Rightarrow> string" where
  "demo_sha1 s = take 3 s @ dec (length s)"

definition demo_env :: "nat \<Rightarrow> env" where
  "demo_env room =
     \<lparr>isDSiMode = True, fatInitDefault = True, fatMountSimple = True,
      argv0 = Some ''sd:/restorer.nds'', deviceListAppname = None,
      nitroFSInit = (\<lambda>_. True), uninit = 0, sha1 = demo_sha1,
      calculateFileSha1 = (\<lambda>c. Some (demo_sha1 c)), digestOfHex = take 6,
      unlock_ok = True, toggle_ok = (\<lambda>_. True), fopen_update_ok = True,
      ftruncate_ok = True, fwrite_count = 1, fwrite_room = room\<rparr>"

definition good_tmd :: string where
  "good_tmd = replicate 520 CHR ''g''"

definition tampered_tmd :: string where
  "tampered_tmd = replicate 520 CHR ''x''"

definition demo_src :: string where
  "demo_src = ''nitro:/484e4145/tmd.512''"

definition demo_tgt :: string where
  "demo_tgt = ''nand:/title/00030017/484e4145/content/title.tmd''"

definition demo_app :: string where
  "demo_app = ''nand:/title/00030017/484e4145/content/00000002.app''"

definition demo_files :: "string \<Rightarrow> string \<Rightarrow> string \<rightharpoonup> string" where
  "demo_files source target =
     [''nand:/sys/HWINFO_S.dat'' \<mapsto> replicate 0xA0 (CHR 0x00) @ ''EANH'',
      demo_src \<mapsto> source,
      demo_src @ ''.sha1'' \<mapsto> ''ggg520'' @ replicate 34 CHR ''0'',
      demo_tgt \<mapsto> target]"

definition demo_dirs :: "string \<rightharpoonup> (bool \<times> string) list" where
  "demo_dirs =
     [''nand:/title/00030017/484e4145/content'' \<mapsto>
        [(True, ''.''), (False, ''title.tmd''), (False, ''00000002.app'')]]"

text \<open>
  A damaged target, a charging console, and a user who says yes; then the same console
  with an intact target and a source copy cut short, with both files intact, with both
  files intact and the other processor signalling EXIT while the program runs, and with
  a source copy whose digest is not the one on record.
\<close>

definition damaged_world :: world where
  "damaged_world =
     boot (demo_files good_tmd ''broken'') demo_dirs [YES] [[(FIFO_USER_03, 0x8F)]]"

definition intact_world :: world where
  "intact_world =
     boot (demo_files ''short'' good_tmd) demo_dirs [YES] [[(FIFO_USER_03, 0x8F)]]"

definition intact_ok_world :: world where
  "intact_ok_world =
     boot (demo_files good_tmd good_tmd) demo_dirs [YES] [[(FIFO_USER_03, 0x8F)]]"

definition intact_ok_exit_world :: world where
  "intact_ok_exit_world =
     boot (demo_files good_tmd good_tmd) demo_dirs [YES]
       [[(FIFO_USER_03, 0x8F)], [(FIFO_USER_01, 0x54495845)]]"

definition tampered_world :: world where
  "tampered_world =
     boot (demo_files tampered_tmd ''broken'') demo_dirs [YES] [[(FIFO_USER_03, 0x8F)]]"

text \<open>
  A small device: six sectors of four bytes, the primary table copy in sectors 1 and 2,
  the backup copy in sectors 3 and 4. The key stream is a stand-in. The device is given by
  the plaintext of its sectors; here the second sector of the backup copy differs from
  the second sector of the primary copy, as after a failed mirroring.
\<close>

definition demo_keys :: keystream where
  "demo_keys i k = of_nat (7 * i + k + 1)"

definition demo_plain :: "nat \<Rightarrow> u8 list" where
  "demo_plain j =
     (if j = 1 then [1, 1, 1, 1] else if j = 2 then [2, 2, 2, 2]
      else if j = 3 then [1, 1, 1, 1] else if j = 4 then [9, 9, 9, 9]
      else [0, 0, 0, 0])"

definition demo_driver :: "gate \<Rightarrow> driver" where
  "demo_driver g =
     \<lparr>gate = g, keys = demo_keys,
      med = \<lparr>cells = (\<lambda>j. transform demo_keys j (demo_plain j)), sectorCount = 6,
             faulty = [], reopen_ok = True\<rparr>,
      sectorSize = 4, primaryStart = 1, backupStart = 3, tableLen = 2,
      sigOffset = None, validMarker = 0\<rparr>"

section \<open>Properties of the application\<close>

subsection \<open>What each stage adds to the trace\<close>

lemma dispatch_frame:
  "trace (dispatch m w) = trace w" "files (dispatch m w) = files w"
  "dirs (dispatch m w) = dirs w"
  "choices (dispatch m w) = choices w"
  by (simp_all add: dispatch_def exit_handler_def battery_handler_def split: fifo_channel.splits)

lemma foldl_dispatch_frame:
  "trace (foldl (\<lambda>v m. dispatch m v) w b) = trace w \<and>
   files (foldl (\<lambda>v m. dispatch m v) w b) = files w \<and>
   dirs (foldl (\<lambda>v m. dispatch m v) w b) = dirs w \<and>
   choices (foldl (\<lambda>v m. dispatch m v) w b) = choices w"
  by (induction b arbitrary: w) (simp_all add: dispatch_frame)

lemma observe_frame:
  "trace (observe w) = trace w" "files (observe w) = files w"
  "dirs (observe w) = dirs w"
  "choices (observe w) = choices w"
  by (simp_all add: observe_def foldl_dispatch_frame split: list.splits)

lemma cleanup_frame:
  "trace (snd (cleanup w)) =
     trace w @ [FatUnmount ''nand:'', Nandio Shutdown, FifoSendValue32 FIFO_USER_02 0x54495845]"
  "files (snd (cleanup w)) = files w" "dirs (snd (cleanup w)) = dirs w"
  by (simp_all add: cleanup_def Let_def observe_frame emit_def)

lemma exitWithMessage_frame:
  "trace (snd (exitWithMessage m w)) = trace w @ goodbye m"
  "files (snd (exitWithMessage m w)) = files w" "dirs (snd (exitWithMessage m w)) = dirs w"
  by (simp_all add: exitWithMessage_def Let_def split_beta cleanup_frame emit_def goodbye_def)

lemma exitWithMessage_outcome:
  "fst (exitWithMessage m w) = Exited m \<or> fst (exitWithMessage m w) = Blocked"
  by (simp add: exitWithMessage_def Let_def split_beta)

lemma benign_goodbye: "m \<noteq> ''Done'' \<Longrightarrow> list_all benign (goodbye m)"
  by (simp add: goodbye_def)

lemma error_not_Done [simp]: "error_prefix @ e \<noteq> ''Done''"
  by (simp add: error_prefix_def)

lemma battery_wait_frame:
  "battery_wait cs w = (r, w') \<Longrightarrow>
     \<exists>n. trace w' = trace w @ replicate n (ChoiceBox msg_battery) \<and>
         files w' = files w \<and> dirs w' = dirs w"
proof (induction cs arbitrary: w)
  case Nil
  then show ?case
    by (auto simp: Let_def observe_frame emit_def split: if_splits intro: exI [of _ 0] exI [of _ 1])
next
  case (Cons c cs)
  show ?case
  proof (cases "batteryLevel (observe w) < 7 \<and> \<not> charging (observe w)")
    case False
    with Cons.prems show ?thesis
      by (auto simp: Let_def observe_frame intro: exI [of _ 0])
  next
    case low: True
    show ?thesis
    proof (cases "c = NO")
      case True
      with low Cons.prems show ?thesis
        by (auto simp: Let_def observe_frame emit_def intro: exI [of _ 1])
    next
      case False
      with low Cons.prems
      have "battery_wait cs (emit (ChoiceBox msg_battery) (observe w)) = (r, w')"
        by (simp add: Let_def)
      from Cons.IH [OF this] obtain n where
        "trace w' = trace (emit (ChoiceBox msg_battery) (observe w)) @ replicate n (ChoiceBox msg_battery)"
        "files w' = files w" "dirs w' = dirs w"
        by (auto simp: emit_def observe_frame)
      then show ?thesis
        by (auto simp: emit_def observe_frame replicate_app_Cons_same intro!: exI [of _ "Suc n"])
    qed
  qed
qed

lemma leave_simps [simp]:
  "fst (leave r) = Inl (fst r)" "snd (leave r) = snd r"
  by (simp_all add: leave_def)

lemma leave_eq: "leave r = (x, w') \<longleftrightarrow> x = Inl (fst r) \<and> w' = snd r"
  by (auto simp: leave_def)

lemma abort_frame:
  "trace (snd (abortWithError e w)) = trace w @ goodbye (error_prefix @ e)"
  "files (snd (abortWithError e w)) = files w" "dirs (snd (abortWithError e w)) = dirs w"
  by (simp_all add: abortWithError_def exitWithMessage_frame)

lemma abort_outcome:
  "fst (abortWithError e w) = Exited (error_prefix @ e) \<or> fst (abortWithError e w) = Blocked"
  by (simp add: abortWithError_def exitWithMessage_outcome)

lemma getSourceAndTargetTmds_Inr:
  "getSourceAndTargetTmds E w = (Inr p, w') \<Longrightarrow> w' = w"
  by (auto simp: getSourceAndTargetTmds_def Let_def leave_eq split: option.splits scan.splits)

lemma getSourceAndTargetTmds_Inl:
  "getSourceAndTargetTmds E w = (Inl out, w') \<Longrightarrow>
     \<exists>e. trace w' = trace w @ goodbye (error_prefix @ e) \<and> files w' = files w
        \<and> dirs w' = dirs w"
  by (auto simp: getSourceAndTargetTmds_def Let_def leave_eq abort_frame
           split: option.splits scan.splits)

lemma main_prelude_Inl:
  assumes "main_prelude E w = (Inl out, w')"
  shows "\<exists>evs. trace w' = trace w @ evs \<and> list_all benign evs"
proof -
  have g: "\<And>e v. trace (snd (abortWithError e v)) = trace v @ goodbye (error_prefix @ e)"
    by (rule abort_frame)
  show ?thesis
  proof (cases "isDSiMode E \<and> fatInitDefault E \<and> fatMountSimple E")
    case False
    with assms show ?thesis
      by (auto simp: main_prelude_def leave_eq g benign_goodbye split: if_splits)
  next
    case True
    obtain r1 w1 where b: "battery_wait (choices w) w = (r1, w1)"
      by (cases "battery_wait (choices w) w")
    from battery_wait_frame [OF b] obtain n where
      t1: "trace w1 = trace w @ replicate n (ChoiceBox msg_battery)" by blast
    have bb: "list_all benign (replicate n (ChoiceBox msg_battery))"
      by (simp add: list_all_iff)
    show ?thesis
    proof (cases r1)
      case (Inl o1)
      with assms True b have "w' = w1" by (simp add: main_prelude_def)
      with t1 bb show ?thesis by blast
    next
      case (Inr u)
      show ?thesis
      proof (cases "nitroFSInit E (applicationPath E)")
        case False
        with assms True b Inr have "w' = snd (abortWithError (msg_failed ''nitroFSInit()...'' ''Failed'') w1)"
          by (simp add: main_prelude_def leave_eq)
        with t1 bb show ?thesis
          by (simp add: g benign_goodbye)
      next
        case nitro: True
        obtain r2 w2 where s: "getSourceAndTargetTmds E w1 = (r2, w2)"
          by (cases "getSourceAndTargetTmds E w1")
        with assms True b Inr nitro obtain o2 where r2: "r2 = Inl o2" and "w' = w2"
          by (cases r2) (auto simp: main_prelude_def)
        with getSourceAndTargetTmds_Inl s obtain m where "trace w' = trace w1 @ goodbye (error_prefix @ m)"
          by blast
        with t1 bb show ?thesis
          by (simp add: benign_goodbye)
      qed
    qed
  qed
qed

lemma main_prelude_Inr:
  assumes "main_prelude E w = (Inr p, w')"
  shows "\<exists>n. trace w' = trace w @ replicate n (ChoiceBox msg_battery) @ [MessageBox msg_warning]
           \<and> files w' = files w \<and> dirs w' = dirs w"
proof -
  from assms have ok: "isDSiMode E \<and> fatInitDefault E \<and> fatMountSimple E"
    by (auto simp: main_prelude_def leave_eq split: if_splits)
  obtain r1 w1 where b: "battery_wait (choices w) w = (r1, w1)"
    by (cases "battery_wait (choices w) w")
  from battery_wait_frame [OF b] obtain n where
    t1: "trace w1 = trace w @ replicate n (ChoiceBox msg_battery)"
      "files w1 = files w" "dirs w1 = dirs w" by blast
  from assms ok b obtain u where r1: "r1 = Inr u"
    by (cases r1) (auto simp: main_prelude_def)
  from assms ok b r1 have nitro: "nitroFSInit E (applicationPath E)"
    by (auto simp: main_prelude_def leave_eq split: if_splits)
  obtain r2 w2 where s: "getSourceAndTargetTmds E w1 = (r2, w2)"
    by (cases "getSourceAndTargetTmds E w1")
  from assms ok b r1 nitro s have r2: "r2 = Inr p" and w': "w' = emit (MessageBox msg_warning) w2"
    by (cases r2; auto simp: main_prelude_def)+
  from s r2 have "w2 = w1" by (simp add: getSourceAndTargetTmds_Inr)
  with w' t1 show ?thesis
    by (auto simp: emit_def)
qed

lemma checkTmd_Inr:
  assumes "checkTmdAndReadBuffer E s t w = (Inr buf, w')"
  shows "w' = emit (SwiSHA1Calc buf) w \<and>
         (\<exists>c content d.
             files w (s @ ''.sha1'') = Some c \<and> 40 \<le> length c \<and>
             files w s = Some content \<and> 520 \<le> length content \<and> buf = take 520 content \<and>
             sha1 E buf = digestOfHex E (take 40 c) \<and>
             actualSha1Tmd E t w = Inr d \<and> d \<noteq> digestOfHex E (take 40 c))"
  using assms
  by (auto simp: checkTmdAndReadBuffer_def expectedSha1Tmd_def Let_def leave_eq
           split: sum.splits option.splits if_splits)

lemma checkTmd_frame:
  assumes "checkTmdAndReadBuffer E s t w = (r, w')"
  shows "files w' = files w \<and> dirs w' = dirs w"
  using assms
  by (auto simp: checkTmdAndReadBuffer_def Let_def leave_eq abort_frame exitWithMessage_frame
                 emit_def
           split: sum.splits option.splits if_splits)

lemma checkTmd_Inl:
  assumes "checkTmdAndReadBuffer E s t w = (Inl out, w')"
  shows "\<exists>m. (out = Exited m \<or> out = Blocked) \<and>
           ((\<exists>e. m = error_prefix @ e) \<and> trace w' = trace w @ goodbye m \<and>
              ((\<exists>e. expectedSha1Tmd E s w = Inl e) \<or> (\<exists>e. actualSha1Tmd E t w = Inl e) \<or>
               files w s = None \<or> (\<exists>content. files w s = Some content \<and> length content < 520))
            \<or> (\<exists>c content.
                 files w (s @ ''.sha1'') = Some c \<and> 40 \<le> length c \<and>
                 files w s = Some content \<and> 520 \<le> length content \<and>
                 trace w' = trace w @ SwiSHA1Calc (take 520 content) # goodbye m \<and>
                 (if sha1 E (take 520 content) \<noteq> digestOfHex E (take 40 c)
                  then m = error_prefix @ msg_hash_mismatch s
                  else m = msg_tmd_correct \<and>
                       actualSha1Tmd E t w = Inr (digestOfHex E (take 40 c)))))"
proof -
  have ab: "\<And>e v. fst (abortWithError e v) = Exited (error_prefix @ e) \<or> fst (abortWithError e v) = Blocked"
    by (rule abort_outcome)
  show ?thesis
  proof (cases "expectedSha1Tmd E s w")
    case (Inl e)
    with assms ab [of e w] show ?thesis
      by (auto simp: checkTmdAndReadBuffer_def leave_eq abort_frame)
  next
    case exp: (Inr expected)
    then obtain c where c: "files w (s @ ''.sha1'') = Some c" "40 \<le> length c"
        "expected = digestOfHex E (take 40 c)"
      by (auto simp: expectedSha1Tmd_def split: option.splits if_splits)
    show ?thesis
    proof (cases "actualSha1Tmd E t w")
      case (Inl e)
      with assms exp ab [of e w] show ?thesis
        by (auto simp: checkTmdAndReadBuffer_def leave_eq abort_frame)
    next
      case act: (Inr actual)
      show ?thesis
      proof (cases "files w s")
        case None
        with assms exp act ab [of "''Failed to open source tmd ('' @ s @ '')''" w]
        show ?thesis
          by (auto simp: checkTmdAndReadBuffer_def leave_eq abort_frame)
      next
        case (Some content)
        show ?thesis
        proof (cases "length content < 520")
          case True
          with Some assms exp act ab [of "''Failed to read source tmd ('' @ s @ '')''" w]
          show ?thesis
            by (auto simp: checkTmdAndReadBuffer_def leave_eq abort_frame)
        next
          case False
          let ?ret = "take 520 content"
          let ?w1 = "emit (SwiSHA1Calc ?ret) w"
          have t1: "trace ?w1 = trace w @ [SwiSHA1Calc ?ret]" by (simp add: emit_def)
          show ?thesis
          proof (cases "sha1 E ?ret = expected")
            case mismatch: False
            with False Some assms exp act
            have "out = fst (abortWithError (msg_hash_mismatch s) ?w1)"
                 "w' = snd (abortWithError (msg_hash_mismatch s) ?w1)"
              by (auto simp: checkTmdAndReadBuffer_def leave_eq Let_def)
            with ab [of "msg_hash_mismatch s" ?w1] mismatch c Some False t1 show ?thesis
              by (auto simp: abort_frame)
          next
            case True
            with False Some assms exp act
            have "expected = actual" "out = fst (exitWithMessage msg_tmd_correct ?w1)"
                 "w' = snd (exitWithMessage msg_tmd_correct ?w1)"
              by (auto simp: checkTmdAndReadBuffer_def leave_eq Let_def split: if_splits)
            with exitWithMessage_outcome [of msg_tmd_correct ?w1] True c Some False t1 act
            show ?thesis
              by (auto simp: exitWithMessage_frame)
          qed
        qed
      qed
    qed
  qed
qed

lemma emit_frame [simp]:
  "trace (emit e w) = trace w @ [e]" "files (emit e w) = files w" "dirs (emit e w) = dirs w"
  "choices (emit e w) = choices w"
  by (simp_all add: emit_def)

lemma restore_shape:
  assumes "main_restore E t a buf w = (out, w')"
  shows "(\<exists>k tail. trace w' = trace w @ take k (restore_prefix t a) @ tail \<and>
             (tail = [] \<or> (\<exists>m. tail = goodbye m \<and> m \<noteq> ''Done'')) \<and>
             files w' = files w)
       \<or> (unlock_ok E \<and> (\<exists>m old.
             files w t = Some old \<and>
             trace w' = trace w @ restore_prefix t a @ Fwrite t buf # goodbye m \<and>
             (if fwrite_count E \<noteq> 1 then m = error_prefix @ ''Faied to write tmd''
              else m = ''Done'')))"
proof -
  let ?P = "restore_prefix t a"
  let ?quiet = "\<lambda>k tail. trace w' = trace w @ take k ?P @ tail \<and>
             (tail = [] \<or> (\<exists>m. tail = goodbye m \<and> m \<noteq> ''Done'')) \<and>
             files w' = files w"
  have k1: "take 1 ?P = [ChoiceBox msg_restore]"
   and k2: "take 2 ?P = [ChoiceBox msg_restore, Nandio Unlock_writing]"
   and k3: "take 3 ?P = [ChoiceBox msg_restore, Nandio Unlock_writing, ToggleFileReadOnly t False]"
   and k4: "take 4 ?P = [ChoiceBox msg_restore, Nandio Unlock_writing, ToggleFileReadOnly t False,
                         ToggleFileReadOnly a False]"
    by (simp_all add: restore_prefix_def)
  have tail_ok: "\<And>m. m \<noteq> ''Done'' \<Longrightarrow>
      (goodbye m = [] \<or> (\<exists>m'. goodbye m = goodbye m' \<and> m' \<noteq> ''Done''))"
    by blast
  show ?thesis
  proof (cases "choices w")
    case Nil
    with assms have "?quiet 1 []"
      by (auto simp: main_restore_def Let_def emit_def restore_prefix_def)
    then show ?thesis by blast
  next
    case (Cons c cs)
    let ?w2 = "(emit (ChoiceBox msg_restore) w)\<lparr>choices := cs\<rparr>"
    have t2: "trace ?w2 = trace w @ take 1 ?P" "files ?w2 = files w"
      by (simp_all add: emit_def restore_prefix_def)
    show ?thesis
    proof (cases "c = NO")
      case True
      with assms Cons have "w' = snd (exitWithMessage ''Aborted'' ?w2)"
        by (simp add: main_restore_def Let_def emit_def)
      with t2 have "?quiet 1 (goodbye ''Aborted'')"
        by (simp add: exitWithMessage_frame tail_ok)
      then show ?thesis by blast
    next
      case yes: False
      let ?w3 = "emit (Nandio Unlock_writing) ?w2"
      have t3: "trace ?w3 = trace w @ take 2 ?P" "files ?w3 = files w"
        by (simp_all add: emit_def restore_prefix_def)
      show ?thesis
      proof (cases "unlock_ok E")
        case False
        with assms Cons yes
        have "w' = snd (abortWithError ''Failed to mount the nand as writable'' ?w3)"
          by (simp add: main_restore_def Let_def emit_def)
        with t3 have "?quiet 2 (goodbye (error_prefix @ ''Failed to mount the nand as writable''))"
          by (simp add: abort_frame tail_ok)
        then show ?thesis by blast
      next
        case unlocked: True
        let ?w4 = "emit (ToggleFileReadOnly t False) ?w3"
        have t4: "trace ?w4 = trace w @ take 3 ?P" "files ?w4 = files w"
          by (simp_all add: emit_def restore_prefix_def)
        show ?thesis
        proof (cases "toggle_ok E t")
          case False
          with assms Cons yes unlocked
          have "w' = snd (abortWithError ''Failed to mark target tmd as writable'' ?w4)"
            by (simp add: main_restore_def Let_def emit_def)
          with t4 have "?quiet 3 (goodbye (error_prefix @ ''Failed to mark target tmd as writable''))"
            by (simp add: abort_frame tail_ok)
          then show ?thesis by blast
        next
          case tog1: True
          let ?w5 = "emit (ToggleFileReadOnly a False) ?w4"
          have t5: "trace ?w5 = trace w @ take 4 ?P" "files ?w5 = files w"
            by (simp_all add: emit_def restore_prefix_def)
          show ?thesis
          proof (cases "toggle_ok E a")
            case False
            with assms Cons yes unlocked tog1
            have "w' = snd (abortWithError ''Failed to mark launcher app as writable'' ?w5)"
              by (simp add: main_restore_def Let_def emit_def)
            with t5 have "?quiet 4 (goodbye (error_prefix @ ''Failed to mark launcher app as writable''))"
              by (simp add: abort_frame tail_ok)
            then show ?thesis by blast
          next
            case tog2: True
            show ?thesis
            proof (cases "if fopen_update_ok E then files w t else None")
              case None
              then have "(if fopen_update_ok E then files ?w5 t else None) = None"
                by (simp add: emit_def split: if_splits)
              with assms Cons yes unlocked tog1 tog2 have "w' = ?w5"
                by (simp add: main_restore_def Let_def)
              with t5 have "?quiet 4 []" by simp
              then show ?thesis by blast
            next
              case (Some old)
              then have old: "files w t = Some old" by (simp split: if_splits)
              from Some have old5: "(if fopen_update_ok E then files ?w5 t else None) = Some old"
                by (simp split: if_splits)
              let ?w6 = "emit (Ftruncate t 520) ?w5"
              have t6: "trace ?w6 = trace w @ ?P" "files ?w6 = files w"
                by (simp_all add: emit_def restore_prefix_def)
              show ?thesis
              proof (cases "ftruncate_ok E")
                case False
                with assms Cons yes unlocked tog1 tog2 old5
                have "w' = snd (abortWithError ''Failed to truncate target tmd as right size'' ?w6)"
                  by (simp add: main_restore_def Let_def)
                with t6 have "?quiet 5 (goodbye (error_prefix @ ''Failed to truncate target tmd as right size''))"
                  by (simp add: abort_frame restore_prefix_def tail_ok)
                then show ?thesis by blast
              next
                case trunc: True
                let ?sized = "take 520 (old @ replicate 520 (CHR 0x00))"
                let ?taken = "min (length buf) (fwrite_room E)"
                let ?w7 = "emit (Fwrite t buf) ?w6"
                let ?w8 = "?w7\<lparr>files := (files ?w7)(t \<mapsto> take ?taken buf @ drop ?taken ?sized)\<rparr>"
                have t8: "trace ?w8 = trace w @ ?P @ [Fwrite t buf]"
                  "files ?w8 = (files w)(t \<mapsto> take ?taken buf @ drop ?taken ?sized)"
                  by (simp_all add: emit_def restore_prefix_def)
                from assms Cons yes unlocked tog1 tog2 old5 trunc
                have w': "w' = snd (if fwrite_count E \<noteq> 1 then abortWithError ''Faied to write tmd'' ?w8
                           else exitWithMessage ''Done'' ?w8)"
                  by (auto simp: main_restore_def Let_def split: if_splits)
                show ?thesis
                proof (cases "fwrite_count E = 1")
                  case False
                  with w' t8 unlocked old show ?thesis
                    by (simp add: abort_frame)
                next
                  case True
                  with w' t8 unlocked old show ?thesis
                    by (simp add: exitWithMessage_frame)
                qed
              qed
            qed
          qed
        qed
      qed
    qed
  qed
qed

lemma digests_depend_on_files:
  "files w1 = files w \<Longrightarrow> expectedSha1Tmd E s w1 = expectedSha1Tmd E s w"
  "files w1 = files w \<Longrightarrow> actualSha1Tmd E t w1 = actualSha1Tmd E t w"
  by (simp_all add: expectedSha1Tmd_def actualSha1Tmd_def)

lemma split_unique:
  assumes "xs @ x # ys = pre @ y # post" "P y" "\<forall>e\<in>set xs. \<not> P e" "\<forall>e\<in>set ys. \<not> P e"
  shows "pre = xs \<and> y = x \<and> post = ys"
  using assms
proof (induction xs arbitrary: pre)
  case Nil
  then show ?case by (cases pre) auto
next
  case (Cons z zs)
  then show ?case by (cases pre) auto
qed


text \<open>What a run looks like once the three paths are known.\<close>

lemma main_after_prelude:
  assumes pre: "main_prelude E w = (Inr (s, t, a), w1)"
      and run: "main E w = (out, w')" and start: "trace w = []"
  shows "\<exists>n.
     ((\<exists>e. trace w' = prologue n @ goodbye (error_prefix @ e)) \<and> files w' = files w \<and>
        ((\<exists>e. expectedSha1Tmd E s w = Inl e) \<or> (\<exists>e. actualSha1Tmd E t w = Inl e) \<or>
          files w s = None \<or> (\<exists>content. files w s = Some content \<and> length content < 520)))
   \<or> (\<exists>c content m.
          files w (s @ ''.sha1'') = Some c \<and> 40 \<le> length c \<and>
          files w s = Some content \<and> 520 \<le> length content \<and>
          trace w' = prologue n @ SwiSHA1Calc (take 520 content) # goodbye m \<and>
          (out = Exited m \<or> out = Blocked) \<and> files w' = files w \<and>
          (if sha1 E (take 520 content) \<noteq> digestOfHex E (take 40 c)
           then m = error_prefix @ msg_hash_mismatch s
           else m = msg_tmd_correct \<and> actualSha1Tmd E t w = Inr (digestOfHex E (take 40 c))))
   \<or> (\<exists>c content d.
          files w (s @ ''.sha1'') = Some c \<and> 40 \<le> length c \<and>
          files w s = Some content \<and> 520 \<le> length content \<and>
          sha1 E (take 520 content) = digestOfHex E (take 40 c) \<and>
          actualSha1Tmd E t w = Inr d \<and> d \<noteq> digestOfHex E (take 40 c) \<and>
          ((\<exists>k tail. trace w' = prologue n @ SwiSHA1Calc (take 520 content)
                                   # take k (restore_prefix t a) @ tail \<and>
               (tail = [] \<or> (\<exists>m. tail = goodbye m \<and> m \<noteq> ''Done'')) \<and> files w' = files w)
           \<or> (unlock_ok E \<and> (\<exists>m old. files w t = Some old \<and>
                 trace w' = prologue n @ SwiSHA1Calc (take 520 content) # restore_prefix t a
                              @ Fwrite t (take 520 content) # goodbye m \<and>
                 (if fwrite_count E \<noteq> 1 then m = error_prefix @ ''Faied to write tmd''
                  else m = ''Done'')))))"
  (is "\<exists>n. ?A n \<or> ?B n \<or> ?C n")
proof -
  from main_prelude_Inr [OF pre] start obtain n where
    w1: "trace w1 = prologue n" "files w1 = files w"
    by (auto simp: prologue_def)
  note dep = digests_depend_on_files [OF w1(2)]
  obtain r2 w2 where chk: "checkTmdAndReadBuffer E s t w1 = (r2, w2)"
    by (cases "checkTmdAndReadBuffer E s t w1")
  from checkTmd_frame [OF chk] w1 have w2: "files w2 = files w"
    by simp
  show ?thesis
  proof (cases r2)
    case (Inl o2)
    with pre run chk have eq: "out = o2" "w' = w2"
      by (simp_all add: main_def)
    from chk Inl have "checkTmdAndReadBuffer E s t w1 = (Inl o2, w2)" by simp
    from checkTmd_Inl [OF this] obtain m where
      oc: "o2 = Exited m \<or> o2 = Blocked" and
      alt: "((\<exists>e. m = error_prefix @ e) \<and> trace w2 = trace w1 @ goodbye m \<and>
              ((\<exists>e. expectedSha1Tmd E s w1 = Inl e) \<or> (\<exists>e. actualSha1Tmd E t w1 = Inl e) \<or>
               files w1 s = None \<or> (\<exists>content. files w1 s = Some content \<and> length content < 520)))
            \<or> (\<exists>c content.
                 files w1 (s @ ''.sha1'') = Some c \<and> 40 \<le> length c \<and>
                 files w1 s = Some content \<and> 520 \<le> length content \<and>
                 trace w2 = trace w1 @ SwiSHA1Calc (take 520 content) # goodbye m \<and>
                 (if sha1 E (take 520 content) \<noteq> digestOfHex E (take 40 c)
                  then m = error_prefix @ msg_hash_mismatch s
                  else m = msg_tmd_correct \<and>
                       actualSha1Tmd E t w1 = Inr (digestOfHex E (take 40 c))))"
      by blast
    from alt show ?thesis
    proof
      assume "(\<exists>e. m = error_prefix @ e) \<and> trace w2 = trace w1 @ goodbye m \<and>
              ((\<exists>e. expectedSha1Tmd E s w1 = Inl e) \<or> (\<exists>e. actualSha1Tmd E t w1 = Inl e) \<or>
               files w1 s = None \<or> (\<exists>content. files w1 s = Some content \<and> length content < 520))"
      with eq w1 w2 dep have "?A n" by auto
      then show ?thesis by blast
    next
      assume "\<exists>c content.
                 files w1 (s @ ''.sha1'') = Some c \<and> 40 \<le> length c \<and>
                 files w1 s = Some content \<and> 520 \<le> length content \<and>
                 trace w2 = trace w1 @ SwiSHA1Calc (take 520 content) # goodbye m \<and>
                 (if sha1 E (take 520 content) \<noteq> digestOfHex E (take 40 c)
                  then m = error_prefix @ msg_hash_mismatch s
                  else m = msg_tmd_correct \<and>
                       actualSha1Tmd E t w1 = Inr (digestOfHex E (take 40 c)))"
      with eq w1 w2 dep oc have "?B n" by (auto split: if_splits)
      then show ?thesis by blast
    qed
  next
    case (Inr buf)
    with pre run chk have rest: "main_restore E t a buf w2 = (out, w')"
      by (simp add: main_def)
    from checkTmd_Inr [of E s t w1 buf w2] chk Inr w1 dep obtain c content d where
      f: "trace w2 = prologue n @ [SwiSHA1Calc buf]"
         "files w (s @ ''.sha1'') = Some c" "40 \<le> length c"
         "files w s = Some content" "520 \<le> length content" "buf = take 520 content"
         "sha1 E buf = digestOfHex E (take 40 c)"
         "actualSha1Tmd E t w = Inr d" "d \<noteq> digestOfHex E (take 40 c)"
      by auto
    from f have len: "length buf = 520" by simp
    from restore_shape [OF rest] f(1) w2 len
    have "(\<exists>k tail. trace w' = prologue n @ SwiSHA1Calc buf # take k (restore_prefix t a) @ tail \<and>
               (tail = [] \<or> (\<exists>m. tail = goodbye m \<and> m \<noteq> ''Done'')) \<and> files w' = files w)
           \<or> (unlock_ok E \<and> (\<exists>m old. files w t = Some old \<and>
                 trace w' = prologue n @ SwiSHA1Calc buf # restore_prefix t a
                              @ Fwrite t buf # goodbye m \<and>
                 (if fwrite_count E \<noteq> 1 then m = error_prefix @ ''Faied to write tmd''
                  else m = ''Done'')))"
      by auto
    with f have "?C n" by blast
    then show ?thesis by blast
  qed
qed

subsection \<open>Whole runs\<close>

lemma in_prologue:
  "e \<in> set (prologue n) \<Longrightarrow> e = ChoiceBox msg_battery \<or> e = MessageBox msg_warning"
  by (auto simp: prologue_def)

lemma in_goodbye:
  "e \<in> set (goodbye m) \<longleftrightarrow>
     e = MessageBox m \<or> e = FatUnmount ''nand:'' \<or> e = Nandio Shutdown \<or>
     e = FifoSendValue32 FIFO_USER_02 0x54495845"
  by (auto simp: goodbye_def)

lemma in_restore_prefix:
  "e \<in> set (take k (restore_prefix t a)) \<Longrightarrow>
     e = ChoiceBox msg_restore \<or> e = Nandio Unlock_writing \<or> e = ToggleFileReadOnly t False \<or>
     e = ToggleFileReadOnly a False \<or> e = Ftruncate t 520"
  by (drule in_set_takeD) (auto simp: restore_prefix_def)

lemma warning_not_Done [simp]: "msg_warning \<noteq> ''Done''"
  by (simp add: msg_warning_def)

lemma correct_not_Done [simp]: "msg_tmd_correct \<noteq> ''Done''"
  by (simp add: msg_tmd_correct_def)

lemma main_prelude_stops:
  assumes "main_prelude E w = (Inl o1, w1)" "main E w = (out, w')" "trace w = []"
  shows "list_all benign (trace w')"
proof -
  from assms(1,2) have "w' = w1" by (simp add: main_def)
  with main_prelude_Inl [OF assms(1)] assms(3) show ?thesis by auto
qed

text \<open>A run that calls \<open>fwrite\<close> has exactly this shape.\<close>

lemma write_run:
  assumes run: "main E w = (out, w')" and start: "trace w = []"
      and split: "trace w' = pre @ Fwrite p buf # post"
  shows "\<exists>s t a w1 n c content m old.
           main_prelude E w = (Inr (s, t, a), w1) \<and> p = t \<and> buf = take 520 content \<and>
           pre = prologue n @ SwiSHA1Calc buf # restore_prefix t a \<and> post = goodbye m \<and>
           unlock_ok E \<and> files w (s @ ''.sha1'') = Some c \<and> 40 \<le> length c \<and>
           files w s = Some content \<and> 520 \<le> length content \<and>
           sha1 E buf = digestOfHex E (take 40 c) \<and> files w t = Some old \<and>
           (if fwrite_count E \<noteq> 1 then m = error_prefix @ ''Faied to write tmd''
            else m = ''Done'')"
proof -
  from split have mem: "Fwrite p buf \<in> set (trace w')" by simp
  obtain r1 w1 where pre1: "main_prelude E w = (r1, w1)"
    by (cases "main_prelude E w")
  show ?thesis
  proof (cases r1)
    case (Inl o1)
    with pre1 run start have "list_all benign (trace w')"
      by (auto intro: main_prelude_stops)
    with mem show ?thesis by (auto simp: list_all_iff)
  next
    case (Inr paths)
    obtain s t a where paths: "paths = (s, t, a)" by (cases paths)
    with pre1 Inr have p1: "main_prelude E w = (Inr (s, t, a), w1)" by simp
    from main_after_prelude [OF p1 run start] obtain n where
      shape: "((\<exists>e. trace w' = prologue n @ goodbye (error_prefix @ e)) \<and> files w' = files w \<and>
        ((\<exists>e. expectedSha1Tmd E s w = Inl e) \<or> (\<exists>e. actualSha1Tmd E t w = Inl e) \<or>
          files w s = None \<or> (\<exists>content. files w s = Some content \<and> length content < 520)))
   \<or> (\<exists>c content m.
          files w (s @ ''.sha1'') = Some c \<and> 40 \<le> length c \<and>
          files w s = Some content \<and> 520 \<le> length content \<and>
          trace w' = prologue n @ SwiSHA1Calc (take 520 content) # goodbye m \<and>
          (out = Exited m \<or> out = Blocked) \<and> files w' = files w \<and>
          (if sha1 E (take 520 content) \<noteq> digestOfHex E (take 40 c)
           then m = error_prefix @ msg_hash_mismatch s
           else m = msg_tmd_correct \<and> actualSha1Tmd E t w = Inr (digestOfHex E (take 40 c))))
   \<or> (\<exists>c content d.
          files w (s @ ''.sha1'') = Some c \<and> 40 \<le> length c \<and>
          files w s = Some content \<and> 520 \<le> length content \<and>
          sha1 E (take 520 content) = digestOfHex E (take 40 c) \<and>
          actualSha1Tmd E t w = Inr d \<and> d \<noteq> digestOfHex E (take 40 c) \<and>
          ((\<exists>k tail. trace w' = prologue n @ SwiSHA1Calc (take 520 content)
                                   # take k (restore_prefix t a) @ tail \<and>
               (tail = [] \<or> (\<exists>m. tail = goodbye m \<and> m \<noteq> ''Done'')) \<and> files w' = files w)
           \<or> (unlock_ok E \<and> (\<exists>m old. files w t = Some old \<and>
                 trace w' = prologue n @ SwiSHA1Calc (take 520 content) # restore_prefix t a
                              @ Fwrite t (take 520 content) # goodbye m \<and>
                 (if fwrite_count E \<noteq> 1 then m = error_prefix @ ''Faied to write tmd''
                  else m = ''Done'')))))"
      (is "?A \<or> ?B \<or> ?C")
      by blast
    have notA: "\<not> ?A" using mem by (auto dest: in_prologue simp: in_goodbye)
    have notB: "\<not> ?B" using mem by (auto dest: in_prologue simp: in_goodbye)
    from shape notA notB have ?C by blast
    then obtain c content d where
      f: "files w (s @ ''.sha1'') = Some c" "40 \<le> length c"
         "files w s = Some content" "520 \<le> length content"
         "sha1 E (take 520 content) = digestOfHex E (take 40 c)"
     and alt: "(\<exists>k tail. trace w' = prologue n @ SwiSHA1Calc (take 520 content)
                                   # take k (restore_prefix t a) @ tail \<and>
               (tail = [] \<or> (\<exists>m. tail = goodbye m \<and> m \<noteq> ''Done'')) \<and> files w' = files w)
           \<or> (unlock_ok E \<and> (\<exists>m old. files w t = Some old \<and>
                 trace w' = prologue n @ SwiSHA1Calc (take 520 content) # restore_prefix t a
                              @ Fwrite t (take 520 content) # goodbye m \<and>
                 (if fwrite_count E \<noteq> 1 then m = error_prefix @ ''Faied to write tmd''
                  else m = ''Done'')))"
        (is "?Q \<or> ?W")
      by blast
    have "\<not> ?Q" using mem by (auto dest: in_prologue in_restore_prefix simp: in_goodbye)
    with alt have ?W by blast
    then obtain m old where
      g: "unlock_ok E" "files w t = Some old"
         "trace w' = (prologue n @ SwiSHA1Calc (take 520 content) # restore_prefix t a)
                       @ Fwrite t (take 520 content) # goodbye m"
         "if fwrite_count E \<noteq> 1 then m = error_prefix @ ''Faied to write tmd''
          else m = ''Done''"
      by auto
    have "pre = prologue n @ SwiSHA1Calc (take 520 content) # restore_prefix t a \<and>
          Fwrite p buf = Fwrite t (take 520 content) \<and> post = goodbye m"
    proof (rule split_unique [where P = is_fwrite])
      show "(prologue n @ SwiSHA1Calc (take 520 content) # restore_prefix t a)
              @ Fwrite t (take 520 content) # goodbye m = pre @ Fwrite p buf # post"
        using g(3) split by simp
      show "is_fwrite (Fwrite p buf)" by simp
      show "\<forall>e\<in>set (prologue n @ SwiSHA1Calc (take 520 content) # restore_prefix t a).
              \<not> is_fwrite e"
        by (auto simp: prologue_def restore_prefix_def)
      show "\<forall>e\<in>set (goodbye m). \<not> is_fwrite e"
        by (auto simp: goodbye_def)
    qed
    then have eqs: "pre = prologue n @ SwiSHA1Calc buf # restore_prefix t a" "p = t"
      "take 520 content = buf" "post = goodbye m"
      by simp_all
    from g(4) eqs(3)
    have fin: "if fwrite_count E \<noteq> 1 then m = error_prefix @ ''Faied to write tmd''
            else m = ''Done''"
      by simp
    from f(5) eqs(3) have dig: "sha1 E buf = digestOfHex E (take 40 c)" by simp
    from p1 eqs(1,2,4) eqs(3) [symmetric] g(1,2) f(1-4) dig fin show ?thesis
      by blast
  qed
qed


subsection \<open>The shapes of a run, as a case rule\<close>

lemma main_run_cases [consumes 3, case_names failed checked stopped written]:
  assumes "main_prelude E w = (Inr (s, t, a), w1)" "main E w = (out, w')" "trace w = []"
  obtains
    (failed) n e where
      "trace w' = prologue n @ goodbye (error_prefix @ e)" "files w' = files w"
      "(\<exists>e. expectedSha1Tmd E s w = Inl e) \<or> (\<exists>e. actualSha1Tmd E t w = Inl e) \<or>
         files w s = None \<or> (\<exists>content. files w s = Some content \<and> length content < 520)"
  | (checked) n c content m where
      "files w (s @ ''.sha1'') = Some c" "40 \<le> length c"
      "files w s = Some content" "520 \<le> length content"
      "trace w' = prologue n @ SwiSHA1Calc (take 520 content) # goodbye m"
      "out = Exited m \<or> out = Blocked" "files w' = files w"
      "if sha1 E (take 520 content) \<noteq> digestOfHex E (take 40 c)
       then m = error_prefix @ msg_hash_mismatch s
       else m = msg_tmd_correct \<and> actualSha1Tmd E t w = Inr (digestOfHex E (take 40 c))"
  | (stopped) n c content d k tail where
      "files w (s @ ''.sha1'') = Some c" "40 \<le> length c"
      "files w s = Some content" "520 \<le> length content"
      "sha1 E (take 520 content) = digestOfHex E (take 40 c)"
      "actualSha1Tmd E t w = Inr d" "d \<noteq> digestOfHex E (take 40 c)"
      "trace w' = prologue n @ SwiSHA1Calc (take 520 content) # take k (restore_prefix t a) @ tail"
      "tail = [] \<or> (\<exists>m. tail = goodbye m \<and> m \<noteq> ''Done'')" "files w' = files w"
  | (written) n c content d m old where
      "files w (s @ ''.sha1'') = Some c" "40 \<le> length c"
      "files w s = Some content" "520 \<le> length content"
      "sha1 E (take 520 content) = digestOfHex E (take 40 c)"
      "actualSha1Tmd E t w = Inr d" "d \<noteq> digestOfHex E (take 40 c)"
      "unlock_ok E" "files w t = Some old"
      "trace w' = prologue n @ SwiSHA1Calc (take 520 content) # restore_prefix t a
                    @ Fwrite t (take 520 content) # goodbye m"
      "if fwrite_count E \<noteq> 1 then m = error_prefix @ ''Faied to write tmd''
       else m = ''Done''"
  using main_after_prelude [OF assms]
proof -
  from main_after_prelude [OF assms] obtain n where
    "(\<exists>e. trace w' = prologue n @ goodbye (error_prefix @ e)) \<and> files w' = files w \<and>
        ((\<exists>e. expectedSha1Tmd E s w = Inl e) \<or> (\<exists>e. actualSha1Tmd E t w = Inl e) \<or>
          files w s = None \<or> (\<exists>content. files w s = Some content \<and> length content < 520))
   \<or> (\<exists>c content m.
          files w (s @ ''.sha1'') = Some c \<and> 40 \<le> length c \<and>
          files w s = Some content \<and> 520 \<le> length content \<and>
          trace w' = prologue n @ SwiSHA1Calc (take 520 content) # goodbye m \<and>
          (out = Exited m \<or> out = Blocked) \<and> files w' = files w \<and>
          (if sha1 E (take 520 content) \<noteq> digestOfHex E (take 40 c)
           then m = error_prefix @ msg_hash_mismatch s
           else m = msg_tmd_correct \<and> actualSha1Tmd E t w = Inr (digestOfHex E (take 40 c))))
   \<or> (\<exists>c content d.
          files w (s @ ''.sha1'') = Some c \<and> 40 \<le> length c \<and>
          files w s = Some content \<and> 520 \<le> length content \<and>
          sha1 E (take 520 content) = digestOfHex E (take 40 c) \<and>
          actualSha1Tmd E t w = Inr d \<and> d \<noteq> digestOfHex E (take 40 c) \<and>
          ((\<exists>k tail. trace w' = prologue n @ SwiSHA1Calc (take 520 content)
                                   # take k (restore_prefix t a) @ tail \<and>
               (tail = [] \<or> (\<exists>m. tail = goodbye m \<and> m \<noteq> ''Done'')) \<and> files w' = files w)
           \<or> (unlock_ok E \<and> (\<exists>m old. files w t = Some old \<and>
                 trace w' = prologue n @ SwiSHA1Calc (take 520 content) # restore_prefix t a
                              @ Fwrite t (take 520 content) # goodbye m \<and>
                 (if fwrite_count E \<noteq> 1 then m = error_prefix @ ''Faied to write tmd''
                  else m = ''Done'')))))"
    (is "?A \<or> ?B \<or> ?C")
    by blast
  then consider ?A | ?B | ?C by blast
  then show thesis
  proof cases
    case 1
    then show thesis using failed by blast
  next
    case 2
    then show thesis using checked by blast
  next
    case 3
    then obtain c content d where
      f: "files w (s @ ''.sha1'') = Some c" "40 \<le> length c"
         "files w s = Some content" "520 \<le> length content"
         "sha1 E (take 520 content) = digestOfHex E (take 40 c)"
         "actualSha1Tmd E t w = Inr d" "d \<noteq> digestOfHex E (take 40 c)"
     and alt: "(\<exists>k tail. trace w' = prologue n @ SwiSHA1Calc (take 520 content)
                                   # take k (restore_prefix t a) @ tail \<and>
               (tail = [] \<or> (\<exists>m. tail = goodbye m \<and> m \<noteq> ''Done'')) \<and> files w' = files w)
           \<or> (unlock_ok E \<and> (\<exists>m old. files w t = Some old \<and>
                 trace w' = prologue n @ SwiSHA1Calc (take 520 content) # restore_prefix t a
                              @ Fwrite t (take 520 content) # goodbye m \<and>
                 (if fwrite_count E \<noteq> 1 then m = error_prefix @ ''Faied to write tmd''
                  else m = ''Done'')))"
      by blast
    from alt show thesis
    proof
      assume "\<exists>k tail. trace w' = prologue n @ SwiSHA1Calc (take 520 content)
                                   # take k (restore_prefix t a) @ tail \<and>
               (tail = [] \<or> (\<exists>m. tail = goodbye m \<and> m \<noteq> ''Done'')) \<and> files w' = files w"
      then obtain k tail where
        "trace w' = prologue n @ SwiSHA1Calc (take 520 content) # take k (restore_prefix t a) @ tail"
        "tail = [] \<or> (\<exists>m. tail = goodbye m \<and> m \<noteq> ''Done'')" "files w' = files w"
        by blast
      with f show thesis by (rule stopped)
    next
      assume "unlock_ok E \<and> (\<exists>m old. files w t = Some old \<and>
                 trace w' = prologue n @ SwiSHA1Calc (take 520 content) # restore_prefix t a
                              @ Fwrite t (take 520 content) # goodbye m \<and>
                 (if fwrite_count E \<noteq> 1 then m = error_prefix @ ''Faied to write tmd''
                  else m = ''Done''))"
      then obtain m old where
        "unlock_ok E" "files w t = Some old"
        "trace w' = prologue n @ SwiSHA1Calc (take 520 content) # restore_prefix t a
                              @ Fwrite t (take 520 content) # goodbye m"
        "if fwrite_count E \<noteq> 1 then m = error_prefix @ ''Faied to write tmd''
                  else m = ''Done''"
        by blast
      with f show thesis by (rule written)
    qed
  qed
qed

lemma prelude_pair:
  "fst (main_prelude E w) = Inr p \<Longrightarrow> \<exists>w1. main_prelude E w = (Inr p, w1)"
  by (cases "main_prelude E w") simp

lemma expected_digest:
  "expectedSha1Tmd E s w = Inr d \<Longrightarrow> files w (s @ ''.sha1'') = Some c \<Longrightarrow>
     d = digestOfHex E (take 40 c)"
  by (simp add: expectedSha1Tmd_def split: if_splits)

lemma quiet_prologue:
  "e \<in> set (prologue n) \<Longrightarrow>
     \<not> nand_write e \<and> e \<noteq> Nandio Unlock_writing \<and> e \<noteq> Nandio Lock_writing \<and>
     e \<noteq> SwiSHA1Calc b \<and> e \<noteq> MessageBox ''Done''"
  by (auto simp: prologue_def)

lemma quiet_goodbye:
  "e \<in> set (goodbye m) \<Longrightarrow>
     \<not> nand_write e \<and> e \<noteq> Nandio Unlock_writing \<and> e \<noteq> Nandio Lock_writing \<and>
     e \<noteq> SwiSHA1Calc b \<and> (e = MessageBox ''Done'' \<longrightarrow> m = ''Done'')"
  by (auto simp: in_goodbye)

lemma plain_restore_prefix:
  "e \<in> set (take k (restore_prefix t a)) \<Longrightarrow>
     e \<noteq> SwiSHA1Calc b \<and> e \<noteq> MessageBox m \<and> e \<noteq> Nandio Lock_writing \<and> \<not> is_fwrite e"
  by (auto dest: in_restore_prefix)

text \<open>A run in which a digest was computed and found wrong.\<close>

lemma mismatch_run:
  assumes pre: "main_prelude E w = (Inr (s, t, a), w1)" and run: "main E w = (out, w')"
      and start: "trace w = []"
      and c: "files w (s @ ''.sha1'') = Some c"
      and mem: "SwiSHA1Calc b \<in> set (trace w')"
      and bad: "sha1 E b \<noteq> digestOfHex E (take 40 c)"
  shows "(\<forall>e\<in>set (trace w'). \<not> nand_write e \<and> e \<noteq> Nandio Unlock_writing) \<and>
         (\<exists>pre. trace w' = pre @ goodbye (error_prefix @ msg_hash_mismatch s)) \<and>
         files w' = files w"
  using pre run start
proof (cases rule: main_run_cases)
  case (failed n e)
  with mem show ?thesis
    by (auto dest: quiet_prologue quiet_goodbye)
next
  case (checked n c' content m)
  with c have cc: "c' = c" by simp
  from mem checked(5) have b: "b = take 520 content"
    by (auto dest: quiet_prologue quiet_goodbye)
  with bad cc checked(8) have m: "m = error_prefix @ msg_hash_mismatch s"
    by simp
  have "trace w' = (prologue n @ [SwiSHA1Calc (take 520 content)]) @ goodbye m"
    using checked(5) by simp
  with m have "\<exists>pre. trace w' = pre @ goodbye (error_prefix @ msg_hash_mismatch s)"
    by blast
  moreover have "\<forall>e\<in>set (trace w'). \<not> nand_write e \<and> e \<noteq> Nandio Unlock_writing"
    using checked(5) by (auto dest: quiet_prologue quiet_goodbye)
  ultimately show ?thesis using checked(7) by blast
next
  case (stopped n c' content d k tail)
  with c have cc: "c' = c" by simp
  from mem stopped(8,9) have "b = take 520 content"
    by (auto dest: quiet_prologue quiet_goodbye plain_restore_prefix)
  with bad cc stopped(5) show ?thesis by simp
next
  case (written n c' content d m old)
  with c have cc: "c' = c" by simp
  from mem written(10) have "b = take 520 content"
    by (auto dest: quiet_prologue quiet_goodbye simp: restore_prefix_def)
  with bad cc written(5) show ?thesis by simp
qed

subsection \<open>The concrete runs, evaluated\<close>

lemmas demo_defs =
  demo_env_def demo_files_def demo_dirs_def demo_src_def demo_tgt_def demo_app_def
  demo_sha1_def boot_def

lemma demo_prelude:
  "main_prelude (demo_env room)
       (boot (demo_files source target) demo_dirs [YES] ([(FIFO_USER_03, 0x8F)] # qs)) =
     (Inr (demo_src, demo_tgt, demo_app),
      \<lparr>programEnd = False, arm7Exiting = False, charging = True, batteryLevel = 15,
       files = demo_files source target, dirs = demo_dirs, trace = prologue 0,
       choices = [YES], irqs = qs\<rparr>)"
  by (simp add: main_prelude_def demo_defs observe_def dispatch_def battery_handler_def
        applicationPath_def getSourceAndTargetTmds_def read_launcherTid_def word_of_le_def
        hex8_def hex_digit_def starts_with_def ends_with_def dec.simps emit_def prologue_def
        Let_def)

lemma demo_files_lookup:
  "demo_files source target demo_src = Some source"
  "demo_files source target (demo_src @ ''.sha1'') = Some (''ggg520'' @ replicate 34 CHR ''0'')"
  "demo_files source target demo_tgt = Some target"
  by (simp_all add: demo_files_def demo_src_def demo_tgt_def)

lemma demo_sha1_good: "demo_sha1 good_tmd = ''ggg520''"
  by code_simp

lemma length_good_tmd: "length good_tmd = 520"
  by (simp add: good_tmd_def)

lemma demo_check_damaged:
  "checkTmdAndReadBuffer (demo_env room) demo_src demo_tgt
      \<lparr>programEnd = False, arm7Exiting = False, charging = True, batteryLevel = 15,
       files = demo_files good_tmd ''broken'', dirs = demo_dirs, trace = prologue 0,
       choices = [YES], irqs = []\<rparr> =
     (Inr good_tmd,
      \<lparr>programEnd = False, arm7Exiting = False, charging = True, batteryLevel = 15,
       files = demo_files good_tmd ''broken'', dirs = demo_dirs,
       trace = prologue 0 @ [SwiSHA1Calc good_tmd],
       choices = [YES], irqs = []\<rparr>)"
proof -
  have sha: "demo_sha1 ''broken'' \<noteq> ''ggg520''"
    by (simp add: demo_sha1_def)
  then show ?thesis
    by (simp add: checkTmdAndReadBuffer_def expectedSha1Tmd_def actualSha1Tmd_def
          demo_files_lookup demo_sha1_good length_good_tmd demo_env_def emit_def Let_def)
qed

lemma demo_run_damaged:
  "main (demo_env 520) damaged_world =
     (Exited ''Done'',
      \<lparr>programEnd = True, arm7Exiting = False, charging = True, batteryLevel = 15,
       files = (demo_files good_tmd ''broken'')(demo_tgt \<mapsto> good_tmd), dirs = demo_dirs,
       trace = prologue 0 @ SwiSHA1Calc good_tmd # restore_prefix demo_tgt demo_app
                 @ Fwrite demo_tgt good_tmd # goodbye ''Done'',
       choices = [], irqs = []\<rparr>)"
  unfolding damaged_world_def main_def demo_prelude
  by (simp add: demo_check_damaged)
     (simp add: main_restore_def emit_def demo_env_def demo_files_lookup length_good_tmd
        exitWithMessage_def cleanup_def observe_def restore_prefix_def goodbye_def Let_def)

lemma demo_run_damaged_unflushed:
  "main (demo_env 0) damaged_world =
     (Exited ''Done'',
      \<lparr>programEnd = True, arm7Exiting = False, charging = True, batteryLevel = 15,
       files = (demo_files good_tmd ''broken'')
                 (demo_tgt \<mapsto> ''broken'' @ replicate 514 (CHR 0x00)),
       dirs = demo_dirs,
       trace = prologue 0 @ SwiSHA1Calc good_tmd # restore_prefix demo_tgt demo_app
                 @ Fwrite demo_tgt good_tmd # goodbye ''Done'',
       choices = [], irqs = []\<rparr>)"
  unfolding damaged_world_def main_def demo_prelude
  by (simp add: demo_check_damaged)
     (simp add: main_restore_def emit_def demo_env_def demo_files_lookup length_good_tmd
        exitWithMessage_def cleanup_def observe_def restore_prefix_def
        goodbye_def Let_def)

lemma demo_sha1_tampered: "demo_sha1 tampered_tmd = ''xxx520''"
  by code_simp

lemma length_tampered_tmd: "length tampered_tmd = 520"
  by (simp add: tampered_tmd_def)

lemma demo_goodbye:
  "exitWithMessage m
     \<lparr>programEnd = pe, arm7Exiting = False, charging = ch, batteryLevel = bl,
      files = fs, dirs = ds, trace = tr, choices = cs, irqs = []\<rparr> =
   (Exited m,
     \<lparr>programEnd = True, arm7Exiting = False, charging = ch, batteryLevel = bl,
      files = fs, dirs = ds, trace = tr @ goodbye m, choices = cs, irqs = []\<rparr>)"
  by (simp add: exitWithMessage_def cleanup_def observe_def emit_def goodbye_def Let_def)

lemma demo_run_tampered:
  "main (demo_env room) tampered_world =
     (Exited (error_prefix @ msg_hash_mismatch demo_src),
      \<lparr>programEnd = True, arm7Exiting = False, charging = True, batteryLevel = 15,
       files = demo_files tampered_tmd ''broken'', dirs = demo_dirs,
       trace = (prologue 0 @ [SwiSHA1Calc tampered_tmd])
                 @ goodbye (error_prefix @ msg_hash_mismatch demo_src),
       choices = [YES], irqs = []\<rparr>)"
  unfolding tampered_world_def main_def demo_prelude
  by (simp add: checkTmdAndReadBuffer_def expectedSha1Tmd_def actualSha1Tmd_def
        demo_files_lookup demo_sha1_tampered length_tampered_tmd demo_env_def emit_def Let_def
        leave_def abortWithError_def demo_goodbye)

lemma demo_run_intact:
  "main (demo_env room) intact_world =
     (Exited (error_prefix @ ''Failed to read source tmd ('' @ demo_src @ '')''),
      \<lparr>programEnd = True, arm7Exiting = False, charging = True, batteryLevel = 15,
       files = demo_files ''short'' good_tmd, dirs = demo_dirs,
       trace = prologue 0
                 @ goodbye (error_prefix @ ''Failed to read source tmd ('' @ demo_src @ '')''),
       choices = [YES], irqs = []\<rparr>)"
  unfolding intact_world_def main_def demo_prelude
  by (simp add: checkTmdAndReadBuffer_def expectedSha1Tmd_def actualSha1Tmd_def
        demo_files_lookup demo_sha1_good demo_env_def emit_def Let_def
        leave_def abortWithError_def demo_goodbye)

lemma demo_run_intact_ok:
  "main (demo_env room) intact_ok_world =
     (Exited msg_tmd_correct,
      \<lparr>programEnd = True, arm7Exiting = False, charging = True, batteryLevel = 15,
       files = demo_files good_tmd good_tmd, dirs = demo_dirs,
       trace = (prologue 0 @ [SwiSHA1Calc good_tmd]) @ goodbye msg_tmd_correct,
       choices = [YES], irqs = []\<rparr>)"
  unfolding intact_ok_world_def main_def demo_prelude
  by (simp add: checkTmdAndReadBuffer_def expectedSha1Tmd_def actualSha1Tmd_def
        demo_files_lookup demo_sha1_good length_good_tmd demo_env_def emit_def Let_def
        leave_def demo_goodbye)

lemma demo_run_intact_ok_exit:
  "main (demo_env room) intact_ok_exit_world =
     (Blocked,
      \<lparr>programEnd = True, arm7Exiting = True, charging = True, batteryLevel = 15,
       files = demo_files good_tmd good_tmd, dirs = demo_dirs,
       trace = (prologue 0 @ [SwiSHA1Calc good_tmd]) @ goodbye msg_tmd_correct,
       choices = [YES], irqs = []\<rparr>)"
  unfolding intact_ok_exit_world_def main_def demo_prelude
  by (simp add: checkTmdAndReadBuffer_def expectedSha1Tmd_def actualSha1Tmd_def
        demo_files_lookup demo_sha1_good length_good_tmd demo_env_def emit_def Let_def
        leave_def exitWithMessage_def cleanup_def observe_def dispatch_def exit_handler_def
        goodbye_def)

lemma demo_digests:
  "expectedSha1Tmd (demo_env room) demo_src (boot (demo_files source target) demo_dirs cs qs) = Inr ''ggg520''"
  "actualSha1Tmd (demo_env room) demo_tgt (boot (demo_files source good_tmd) demo_dirs cs qs) = Inr ''ggg520''"
  by (simp_all add: expectedSha1Tmd_def actualSha1Tmd_def boot_def demo_files_lookup
        demo_env_def demo_sha1_good)

lemma demo_start:
  "trace damaged_world = []" "trace intact_world = []" "trace intact_ok_world = []"
  "trace tampered_world = []" "trace intact_ok_exit_world = []"
  by (simp_all add: damaged_world_def intact_world_def intact_ok_world_def tampered_world_def
        intact_ok_exit_world_def boot_def)

lemma demo_paths:
  "fst (main_prelude (demo_env room) damaged_world) = Inr (demo_src, demo_tgt, demo_app)"
  "fst (main_prelude (demo_env room) intact_world) = Inr (demo_src, demo_tgt, demo_app)"
  "fst (main_prelude (demo_env room) intact_ok_world) = Inr (demo_src, demo_tgt, demo_app)"
  "fst (main_prelude (demo_env room) tampered_world) = Inr (demo_src, demo_tgt, demo_app)"
  "fst (main_prelude (demo_env room) intact_ok_exit_world) = Inr (demo_src, demo_tgt, demo_app)"
  by (simp_all add: damaged_world_def intact_world_def intact_ok_world_def tampered_world_def
        intact_ok_exit_world_def demo_prelude)

lemma demo_sha1_file:
  "files damaged_world (demo_src @ ''.sha1'') = Some (''ggg520'' @ replicate 34 CHR ''0'')"
  "files tampered_world (demo_src @ ''.sha1'') = Some (''ggg520'' @ replicate 34 CHR ''0'')"
  by (simp_all add: damaged_world_def tampered_world_def boot_def demo_files_lookup)


subsection \<open>The other processor's EXIT message\<close>

text \<open>
  \<open>arm7Exiting\<close> is set by the handler of \<open>FIFO_USER_01\<close> alone, and only for the value
  \<open>0x54495845\<close>: a run that starts with the flag clear and receives no such message
  keeps it clear, and then \<open>cleanup\<close> returns.
\<close>

lemma dispatch_flag:
  "m \<noteq> (FIFO_USER_01, 0x54495845) \<Longrightarrow> arm7Exiting (dispatch m w) = arm7Exiting w"
  by (cases m) (simp add: dispatch_def exit_handler_def battery_handler_def
        split: fifo_channel.splits)

lemma dispatch_irqs: "irqs (dispatch m w) = irqs w"
  by (simp add: dispatch_def exit_handler_def battery_handler_def split: fifo_channel.splits)

lemma foldl_dispatch_flag:
  "(FIFO_USER_01, 0x54495845) \<notin> set b \<Longrightarrow>
     arm7Exiting (foldl (\<lambda>v m. dispatch m v) w b) = arm7Exiting w \<and>
     irqs (foldl (\<lambda>v m. dispatch m v) w b) = irqs w"
proof (induction b arbitrary: w)
  case Nil
  show ?case by simp
next
  case (Cons m b)
  then have "m \<noteq> (FIFO_USER_01, 0x54495845)" "(FIFO_USER_01, 0x54495845) \<notin> set b"
    by auto
  with Cons.IH [of "dispatch m w"] show ?case
    by (simp add: dispatch_flag dispatch_irqs)
qed


lemma observe_quiet: "no_exit_signal w \<Longrightarrow> no_exit_signal (observe w)"
proof (cases "irqs w")
  case Nil
  then show "no_exit_signal w \<Longrightarrow> no_exit_signal (observe w)"
    by (simp add: observe_def)
next
  case (Cons b bs)
  assume q: "no_exit_signal w"
  with Cons have nb: "(FIFO_USER_01, 0x54495845) \<notin> set b"
    and rest: "\<forall>b\<in>set bs. (FIFO_USER_01, 0x54495845) \<notin> set b"
    and flag: "\<not> arm7Exiting w"
    by (simp_all add: no_exit_signal_def)
  from Cons have o: "observe w = foldl (\<lambda>v m. dispatch m v) (w\<lparr>irqs := bs\<rparr>) b"
    by (simp add: observe_def)
  from foldl_dispatch_flag [OF nb, of "w\<lparr>irqs := bs\<rparr>"] flag rest
  show "no_exit_signal (observe w)"
    unfolding o no_exit_signal_def by simp
qed

lemma emit_quiet [simp]: "no_exit_signal (emit e w) = no_exit_signal w"
  by (simp add: no_exit_signal_def emit_def)

lemma exitWithMessage_exit:
  "fst (exitWithMessage m w) =
     (if arm7Exiting (snd (exitWithMessage m w)) then Blocked else Exited m)"
  by (simp add: exitWithMessage_def cleanup_def Let_def split_beta)


lemma cleanup_quiet:
  assumes "no_exit_signal w"
  shows "\<not> arm7Exiting (snd (cleanup w))"
proof -
  let ?v = "emit (FifoSendValue32 FIFO_USER_02 0x54495845)
              (emit (Nandio Shutdown) (emit (FatUnmount ''nand:'') (w\<lparr>programEnd := True\<rparr>)))"
  from assms have "no_exit_signal (w\<lparr>programEnd := True\<rparr>)"
    by (simp add: no_exit_signal_def)
  then have "no_exit_signal ?v" by simp
  then have "no_exit_signal (observe ?v)" by (rule observe_quiet)
  moreover have "snd (cleanup w) = observe ?v"
    by (simp add: cleanup_def Let_def)
  ultimately show ?thesis
    by (simp add: no_exit_signal_def)
qed

lemma exitWithMessage_quiet:
  assumes "no_exit_signal w"
  shows "\<not> arm7Exiting (snd (exitWithMessage m w))"
proof -
  from assms have "no_exit_signal (emit (MessageBox m) w)" by simp
  from cleanup_quiet [OF this] show ?thesis
    by (simp add: exitWithMessage_def Let_def split_beta)
qed


lemma choices_quiet [simp]: "no_exit_signal (w\<lparr>choices := cs\<rparr>) = no_exit_signal w"
  by (simp add: no_exit_signal_def)

lemma battery_wait_quiet:
  "battery_wait cs w = (r, w') \<Longrightarrow> no_exit_signal w \<Longrightarrow> no_exit_signal w'"
proof (induction cs arbitrary: w)
  case Nil
  from Nil(2) have q: "no_exit_signal (observe w)" by (rule observe_quiet)
  from Nil(1) have "w' = emit (ChoiceBox msg_battery) ((observe w)\<lparr>choices := []\<rparr>)
                   \<or> w' = (observe w)\<lparr>choices := []\<rparr>"
    by (simp add: Let_def split: if_splits)
  with q show ?case by auto
next
  case (Cons c cs)
  from Cons.prems(2) have q: "no_exit_signal (observe w)" by (rule observe_quiet)
  show ?case
  proof (cases "batteryLevel (observe w) < 7 \<and> \<not> charging (observe w)")
    case False
    with Cons.prems(1) have "w' = (observe w)\<lparr>choices := c # cs\<rparr>"
      by (simp add: Let_def split: if_splits)
    with q show ?thesis by simp
  next
    case low: True
    show ?thesis
    proof (cases "c = NO")
      case True
      with low Cons.prems(1) have "w' = (emit (ChoiceBox msg_battery) (observe w))\<lparr>choices := cs\<rparr>"
        by (simp add: Let_def)
      with q show ?thesis by simp
    next
      case False
      with low Cons.prems(1)
      have "battery_wait cs (emit (ChoiceBox msg_battery) (observe w)) = (r, w')"
        by (simp add: Let_def)
      from Cons.IH [OF this] q show ?thesis by simp
    qed
  qed
qed

lemma main_prelude_quiet:
  assumes "main_prelude E w = (Inr p, w')" and "no_exit_signal w"
  shows "no_exit_signal w'"
proof -
  from assms(1) have ok: "isDSiMode E \<and> fatInitDefault E \<and> fatMountSimple E"
    by (auto simp: main_prelude_def leave_eq split: if_splits)
  obtain r1 w1 where b: "battery_wait (choices w) w = (r1, w1)"
    by (cases "battery_wait (choices w) w")
  from battery_wait_quiet [OF b assms(2)] have q1: "no_exit_signal w1" .
  from assms(1) ok b obtain u where r1: "r1 = Inr u"
    by (cases r1) (auto simp: main_prelude_def)
  from assms(1) ok b r1 have nitro: "nitroFSInit E (applicationPath E)"
    by (auto simp: main_prelude_def leave_eq split: if_splits)
  obtain r2 w2 where s: "getSourceAndTargetTmds E w1 = (r2, w2)"
    by (cases "getSourceAndTargetTmds E w1")
  from assms(1) ok b r1 nitro s have r2: "r2 = Inr p" and w': "w' = emit (MessageBox msg_warning) w2"
    by (cases r2; auto simp: main_prelude_def)+
  from s r2 have "w2 = w1" by (simp add: getSourceAndTargetTmds_Inr)
  with w' q1 show ?thesis by simp
qed


subsection \<open>A run whose target already has the expected digest\<close>

lemma matching_check:
  assumes expected: "expectedSha1Tmd E s w = Inr d"
      and actual: "actualSha1Tmd E t w = Inr d"
  shows "\<exists>v. checkTmdAndReadBuffer E s t w = leave (exitWithMessage (source_verdict E s d w) v) \<and>
             (v = w \<or> (\<exists>b. v = emit (SwiSHA1Calc b) w))"
proof (cases "files w s")
  case None
  with expected actual
  have "checkTmdAndReadBuffer E s t w = leave (exitWithMessage (source_verdict E s d w) w)"
    by (simp add: checkTmdAndReadBuffer_def source_verdict_def abortWithError_def)
  then show ?thesis by blast
next
  case (Some content)
  show ?thesis
  proof (cases "length content < 520")
    case True
    with Some expected actual
    have "checkTmdAndReadBuffer E s t w = leave (exitWithMessage (source_verdict E s d w) w)"
      by (simp add: checkTmdAndReadBuffer_def source_verdict_def abortWithError_def)
    then show ?thesis by blast
  next
    case False
    with Some expected actual
    have "checkTmdAndReadBuffer E s t w =
            leave (exitWithMessage (source_verdict E s d w)
                     (emit (SwiSHA1Calc (take 520 content)) w))"
      by (simp add: checkTmdAndReadBuffer_def source_verdict_def abortWithError_def Let_def)
    then show ?thesis by blast
  qed
qed

lemma matching_run:
  assumes pre: "main_prelude E w = (Inr (s, t, a), w1)"
      and expected: "expectedSha1Tmd E s w = Inr d"
      and actual: "actualSha1Tmd E t w = Inr d"
  shows "\<exists>v. main E w = exitWithMessage (source_verdict E s d w) v \<and> files v = files w \<and>
             (v = w1 \<or> (\<exists>b. v = emit (SwiSHA1Calc b) w1))"
proof -
  from main_prelude_Inr [OF pre] have f1: "files w1 = files w" by blast
  note dep = digests_depend_on_files [OF f1]
  from expected actual dep have e1: "expectedSha1Tmd E s w1 = Inr d"
    and a1: "actualSha1Tmd E t w1 = Inr d" by simp_all
  from f1 have sv: "source_verdict E s d w1 = source_verdict E s d w"
    by (simp add: source_verdict_def)
  from matching_check [OF e1 a1] obtain v where
    v: "checkTmdAndReadBuffer E s t w1 = leave (exitWithMessage (source_verdict E s d w1) v)"
       "v = w1 \<or> (\<exists>b. v = emit (SwiSHA1Calc b) w1)"
    by blast
  from v(2) f1 have "files v = files w" by auto
  moreover from pre v(1) sv have "main E w = exitWithMessage (source_verdict E s d w) v"
    by (simp add: main_def leave_def)
  ultimately show ?thesis using v(2) by blast
qed


section \<open>Properties of the driver\<close>

subsection \<open>The cipher is its own inverse\<close>

lemma length_scratch_fill [simp]: "length (scratch_fill ks i off) = CRYPT_BUF_LEN"
  by (simp add: scratch_fill_def)

lemma map2_xor_cancel:
  "length xs \<le> length ys \<Longrightarrow> map2 (XOR) (map2 (XOR) xs ys) ys = (xs :: u8 list)"
proof (induction xs arbitrary: ys)
  case Nil
  then show ?case by simp
next
  case (Cons x xs)
  then show ?case by (cases ys) (simp_all add: xor.assoc)
qed

lemma transform_from_involution:
  "transform_from ks i off (transform_from ks i off buf) = buf"
proof (induction ks i off buf rule: transform_from.induct)
  case (1 ks i off buf)
  show ?case
  proof (cases "buf = []")
    case True
    then show ?thesis by (simp add: transform_from.simps)
  next
    case False
    let ?A = "map2 (XOR) (take CRYPT_BUF_LEN buf) (scratch_fill ks i off)"
    let ?R = "transform_from ks i (off + CRYPT_BUF_LEN) (drop CRYPT_BUF_LEN buf)"
    have lenA: "length ?A = min CRYPT_BUF_LEN (length buf)" by simp
    have R_empty: "length buf < CRYPT_BUF_LEN \<Longrightarrow> ?R = []"
      by (simp add: transform_from.simps)
    have tk: "take CRYPT_BUF_LEN (?A @ ?R) = ?A"
      using lenA R_empty by (cases "length buf < CRYPT_BUF_LEN") simp_all
    have dr: "drop CRYPT_BUF_LEN (?A @ ?R) = ?R"
      using lenA R_empty by (cases "length buf < CRYPT_BUF_LEN") simp_all
    have "0 < length ?A"
      using False unfolding lenA by (simp add: CRYPT_BUF_LEN_def)
    then have ne: "?A @ ?R \<noteq> []"
      by (simp only: append_is_Nil_conv length_greater_0_conv) simp
    have unf: "transform_from ks i off buf = ?A @ ?R"
      using False by (subst transform_from.simps) simp
    have "transform_from ks i off (?A @ ?R) =
            map2 (XOR) ?A (scratch_fill ks i off) @ transform_from ks i (off + CRYPT_BUF_LEN) ?R"
      using ne by (subst transform_from.simps) (simp only: tk dr if_False)
    also have "map2 (XOR) ?A (scratch_fill ks i off) = take CRYPT_BUF_LEN buf"
      by (rule map2_xor_cancel) simp
    also have "transform_from ks i (off + CRYPT_BUF_LEN) ?R = drop CRYPT_BUF_LEN buf"
      using "1.IH" [OF False] .
    finally show ?thesis by (simp add: unf)
  qed
qed

lemma transform_involution [simp]: "transform ks i (transform ks i buf) = buf"
  by (simp add: transform_def transform_from_involution)

lemma length_transform_from: "length (transform_from ks i off buf) = length buf"
proof (induction ks i off buf rule: transform_from.induct)
  case (1 ks i off buf)
  show ?case
  proof (cases "buf = []")
    case True
    then show ?thesis by (simp add: transform_from.simps)
  next
    case False
    with "1.IH" show ?thesis
      by (subst transform_from.simps) simp
  qed
qed

lemma length_transform [simp]: "length (transform ks i buf) = length buf"
  by (simp add: transform_def length_transform_from)


subsection \<open>The engine and its scratch buffer\<close>

lemma engine_step_state:
  "snd (engine_step e i off piece) = e\<lparr>scratch := scratch_fill (key_stream e) i off\<rparr>"
  "fst (engine_step e i off piece) = map2 (XOR) piece (scratch_fill (key_stream e) i off)"
  by (simp_all add: engine_step_def Let_def)

lemma engine_transform_from_state:
  "key_stream (snd (engine_transform_from e i off buf)) = key_stream e \<and>
   length (scratch (snd (engine_transform_from e i off buf))) =
     (if buf = [] then length (scratch e) else CRYPT_BUF_LEN)"
proof (induction e i off buf rule: engine_transform_from.induct)
  case (1 e i off buf)
  show ?case
  proof (cases "buf = []")
    case True
    then show ?thesis by (simp add: engine_transform_from.simps)
  next
    case False
    let ?s = "engine_step e i off (take CRYPT_BUF_LEN buf)"
    have unf: "snd (engine_transform_from e i off buf) =
                 snd (engine_transform_from (snd ?s) i (off + CRYPT_BUF_LEN)
                        (drop CRYPT_BUF_LEN buf))"
      using False by (subst engine_transform_from.simps) (simp add: Let_def)
    from "1.IH" [OF False refl] show ?thesis
      unfolding unf using False by (simp add: engine_step_state)
  qed
qed

lemma engine_transform_from_output:
  "fst (engine_transform_from e i off buf) = transform_from (key_stream e) i off buf"
proof (induction e i off buf rule: engine_transform_from.induct)
  case (1 e i off buf)
  show ?case
  proof (cases "buf = []")
    case True
    then show ?thesis by (simp add: engine_transform_from.simps transform_from.simps)
  next
    case False
    let ?s = "engine_step e i off (take CRYPT_BUF_LEN buf)"
    have unf: "fst (engine_transform_from e i off buf) =
                 fst ?s @ fst (engine_transform_from (snd ?s) i (off + CRYPT_BUF_LEN)
                        (drop CRYPT_BUF_LEN buf))"
      using False by (subst engine_transform_from.simps) (simp add: Let_def)
    have pure: "transform_from (key_stream e) i off buf =
                  map2 (XOR) (take CRYPT_BUF_LEN buf) (scratch_fill (key_stream e) i off)
                    @ transform_from (key_stream e) i (off + CRYPT_BUF_LEN) (drop CRYPT_BUF_LEN buf)"
      using False by (subst transform_from.simps) simp
    from "1.IH" [OF False refl] show ?thesis
      unfolding unf pure by (simp add: engine_step_state)
  qed
qed

subsection \<open>The small device, evaluated\<close>

lemma demo_tables:
  "readSectors (demo_driver g) 1 2 = Inr [1, 1, 1, 1, 2, 2, 2, 2]"
  "readSectors (demo_driver g) 3 2 = Inr [1, 1, 1, 1, 9, 9, 9, 9]"
  by (simp_all add: readSectors_def physicalRead_def demo_driver_def
        demo_plain_def upt_rec [of 1] upt_rec [of 2] upt_rec [of 3] upt_rec [of 4])

section \<open>The claims about the interface constants and the handlers\<close>

text \<open>
  Claim C7. \<open>NAND_DEVICENAME\<close> is the constant \<open>('N' << 24) | ('A' << 16) | ('N' << 8) | 'D'\<close>:
  the value \<open>0x4E414E44\<close>, whose four bytes, most significant first, are the ASCII
  characters N, A, N, D, and which fits a 32-bit word.
\<close>

theorem NAND_DEVICENAME_is_the_tag:
  "NAND_DEVICENAME = 0x4E414E44 \<and> tag_chars NAND_DEVICENAME = ''NAND'' \<and>
   0 \<le> NAND_DEVICENAME \<and> NAND_DEVICENAME < 2 ^ 31"
proof -
  have v: "NAND_DEVICENAME = 0x4E414E44"
    by (simp add: NAND_DEVICENAME_def)
  have "tag_chars 0x4E414E44 = ''NAND''"
    by code_simp
  with v show ?thesis by simp
qed

text \<open>
  Claim C8. Whatever value arrives, the exit handler and the battery handler change
  nothing but \<open>programEnd\<close>, \<open>arm7Exiting\<close>, \<open>batteryLevel\<close> and \<open>charging\<close>: every
  other component of the state is as before, and no call is made, so none into the
  driver.
\<close>

theorem handlers_touch_only_the_flags:
  "exit_handler v w =
     w\<lparr>programEnd := programEnd (exit_handler v w),
       arm7Exiting := arm7Exiting (exit_handler v w)\<rparr> \<and>
   battery_handler v w =
     w\<lparr>batteryLevel := batteryLevel (battery_handler v w),
       charging := charging (battery_handler v w)\<rparr> \<and>
   trace (exit_handler v w) = trace w \<and> trace (battery_handler v w) = trace w \<and>
   files (exit_handler v w) = files w \<and> files (battery_handler v w) = files w \<and>
   trace (dispatch (ch, v) w) = trace w \<and> files (dispatch (ch, v) w) = files w"
  by (simp add: exit_handler_def battery_handler_def dispatch_frame)

section \<open>The claims about the recovery workflow\<close>

text \<open>
  Claim C4. In every run, a call of \<open>fwrite\<close> writes to the target TMD a buffer of 520
  bytes for which \<open>swiSHA1Calc\<close> was called earlier in the run and whose digest equals
  the one parsed from the first 40 characters of the source's \<open>.sha1\<close> file. And when
  the digest computed over the source buffer differs from that expected digest, the run
  ends in the hash-mismatch abort: it contains no call that changes the NAND and no
  unlock, and the files are as they were.
\<close>

theorem tmd_written_only_after_verification:
  assumes start: "trace w = []"
  shows "(\<forall>pre p buf post. trace (snd (main E w)) = pre @ Fwrite p buf # post \<longrightarrow>
            (\<exists>s t a c. fst (main_prelude E w) = Inr (s, t, a) \<and> p = t \<and> length buf = 520 \<and>
                SwiSHA1Calc buf \<in> set pre \<and> files w (s @ ''.sha1'') = Some c \<and>
                40 \<le> length c \<and> sha1 E buf = digestOfHex E (take 40 c)))
       \<and> (\<forall>s t a c b. fst (main_prelude E w) = Inr (s, t, a) \<and>
              files w (s @ ''.sha1'') = Some c \<and>
              SwiSHA1Calc b \<in> set (trace (snd (main E w))) \<and>
              sha1 E b \<noteq> digestOfHex E (take 40 c) \<longrightarrow>
            (\<forall>e\<in>set (trace (snd (main E w))). \<not> nand_write e \<and> e \<noteq> Nandio Unlock_writing) \<and>
            (\<exists>pre. trace (snd (main E w)) = pre @ goodbye (error_prefix @ msg_hash_mismatch s)) \<and>
            files (snd (main E w)) = files w)"
  (is "?written \<and> ?mismatch")
proof (rule conjI)
 show ?written
 proof (intro allI impI)
  fix pre p buf post
  assume split: "trace (snd (main E w)) = pre @ Fwrite p buf # post"
  have run: "main E w = (fst (main E w), snd (main E w))" by simp
  from write_run [OF run start split] obtain s t a w1 n c content where
    f: "main_prelude E w = (Inr (s, t, a), w1)" "p = t" "buf = take 520 content"
       "pre = prologue n @ SwiSHA1Calc buf # restore_prefix t a"
       "files w (s @ ''.sha1'') = Some c" "40 \<le> length c" "520 \<le> length content"
       "sha1 E buf = digestOfHex E (take 40 c)"
    by blast
  from f(3,7) have "length buf = 520" by simp
  moreover from f(4) have "SwiSHA1Calc buf \<in> set pre" by simp
  moreover from f(1) have "fst (main_prelude E w) = Inr (s, t, a)" by simp
  ultimately show "\<exists>s t a c. fst (main_prelude E w) = Inr (s, t, a) \<and> p = t \<and> length buf = 520 \<and>
                SwiSHA1Calc buf \<in> set pre \<and> files w (s @ ''.sha1'') = Some c \<and>
                40 \<le> length c \<and> sha1 E buf = digestOfHex E (take 40 c)"
    using f(2,5,6,8) by blast
 qed
 show ?mismatch
 proof (intro allI impI)
  fix s t a c b
  assume h: "fst (main_prelude E w) = Inr (s, t, a) \<and> files w (s @ ''.sha1'') = Some c \<and>
              SwiSHA1Calc b \<in> set (trace (snd (main E w))) \<and>
              sha1 E b \<noteq> digestOfHex E (take 40 c)"
  then obtain w1 where pre: "main_prelude E w = (Inr (s, t, a), w1)"
    by (blast dest: prelude_pair)
  have run: "main E w = (fst (main E w), snd (main E w))" by simp
  from h mismatch_run [OF pre run start, of c b]
  show "(\<forall>e\<in>set (trace (snd (main E w))). \<not> nand_write e \<and> e \<noteq> Nandio Unlock_writing) \<and>
        (\<exists>pre. trace (snd (main E w)) = pre @ goodbye (error_prefix @ msg_hash_mismatch s)) \<and>
        files (snd (main E w)) = files w"
    by blast
 qed
qed

text \<open>
  Claim C4, on concrete runs: the run that repairs a damaged target, and the run whose
  source copy has the wrong digest.
\<close>

theorem tmd_written_only_after_verification_witness:
  "trace damaged_world = [] \<and>
   trace (snd (main (demo_env 520) damaged_world)) =
     (prologue 0 @ SwiSHA1Calc good_tmd # restore_prefix demo_tgt demo_app)
       @ Fwrite demo_tgt good_tmd # goodbye ''Done'' \<and>
   SwiSHA1Calc good_tmd \<in> set (prologue 0 @ SwiSHA1Calc good_tmd # restore_prefix demo_tgt demo_app) \<and>
   sha1 (demo_env 520) good_tmd
     = digestOfHex (demo_env 520) (take 40 (''ggg520'' @ replicate 34 CHR ''0'')) \<and>
   trace tampered_world = [] \<and>
   SwiSHA1Calc tampered_tmd \<in> set (trace (snd (main (demo_env 520) tampered_world))) \<and>
   sha1 (demo_env 520) tampered_tmd
     \<noteq> digestOfHex (demo_env 520) (take 40 (''ggg520'' @ replicate 34 CHR ''0'')) \<and>
   Nandio Unlock_writing \<notin> set (trace (snd (main (demo_env 520) tampered_world))) \<and>
   files (snd (main (demo_env 520) tampered_world)) = files tampered_world"
proof -
  let ?E = "demo_env 520"
  let ?c = "''ggg520'' @ replicate 34 CHR ''0''"
  have tr: "trace (snd (main ?E damaged_world)) =
     (prologue 0 @ SwiSHA1Calc good_tmd # restore_prefix demo_tgt demo_app)
       @ Fwrite demo_tgt good_tmd # goodbye ''Done''"
    by (simp add: demo_run_damaged)
  from tmd_written_only_after_verification [OF demo_start(1), of ?E] tr
  obtain s t a c where
    "fst (main_prelude ?E damaged_world) = Inr (s, t, a)"
    "SwiSHA1Calc good_tmd \<in> set (prologue 0 @ SwiSHA1Calc good_tmd # restore_prefix demo_tgt demo_app)"
    "files damaged_world (s @ ''.sha1'') = Some c" "sha1 ?E good_tmd = digestOfHex ?E (take 40 c)"
    by blast
  then have first:
    "SwiSHA1Calc good_tmd \<in> set (prologue 0 @ SwiSHA1Calc good_tmd # restore_prefix demo_tgt demo_app)"
    "sha1 ?E good_tmd = digestOfHex ?E (take 40 ?c)"
    by (simp_all add: demo_paths demo_sha1_file)
  have mem: "SwiSHA1Calc tampered_tmd \<in> set (trace (snd (main ?E tampered_world)))"
    by (simp add: demo_run_tampered)
  have bad: "sha1 ?E tampered_tmd \<noteq> digestOfHex ?E (take 40 ?c)"
    by (simp add: demo_env_def demo_sha1_tampered)
  from tmd_written_only_after_verification [OF demo_start(4), of ?E]
    demo_paths(4) [of 520] demo_sha1_file(2) mem bad
  have "(\<forall>e\<in>set (trace (snd (main ?E tampered_world))). \<not> nand_write e \<and> e \<noteq> Nandio Unlock_writing) \<and>
        files (snd (main ?E tampered_world)) = files tampered_world"
    by blast
  then have second: "Nandio Unlock_writing \<notin> set (trace (snd (main ?E tampered_world)))"
    "files (snd (main ?E tampered_world)) = files tampered_world"
    by blast+
  from demo_start(1,4) tr first mem bad second show ?thesis by blast
qed

text \<open>
  Claim C5 says that \<open>nandio_lock_writing\<close> is called after the write. In the run that
  repairs a damaged target, what follows the \<open>fwrite\<close> is the message box and
  \<open>cleanup\<close>, which calls \<open>nandio_shutdown\<close>; \<open>nandio_lock_writing\<close> is not among the
  calls.
\<close>

theorem lock_writing_is_never_called:
  "trace damaged_world = [] \<and>
   trace (snd (main (demo_env 520) damaged_world)) =
     (prologue 0 @ SwiSHA1Calc good_tmd # restore_prefix demo_tgt demo_app)
       @ Fwrite demo_tgt good_tmd # goodbye ''Done'' \<and>
   Nandio Lock_writing \<notin> set (goodbye ''Done'')"
  by (simp add: demo_start demo_run_damaged goodbye_def)

text \<open>
  Claim C5, as the program has it. In every run that calls \<open>fwrite\<close>:
  \<open>nandio_unlock_writing\<close> was called before and had succeeded, \<open>nandio_shutdown\<close> is
  called afterwards, \<open>nandio_lock_writing\<close> is called nowhere in the run, and there is no
  second \<open>fwrite\<close>.
\<close>

theorem write_between_unlock_and_shutdown:
  assumes start: "trace w = []"
      and split: "trace (snd (main E w)) = pre @ Fwrite p buf # post"
  shows "Nandio Unlock_writing \<in> set pre \<and> unlock_ok E \<and> Nandio Shutdown \<in> set post \<and>
         Nandio Lock_writing \<notin> set (trace (snd (main E w))) \<and>
         (\<forall>e\<in>set pre \<union> set post. \<not> is_fwrite e)"
proof -
  have run: "main E w = (fst (main E w), snd (main E w))" by simp
  from write_run [OF run start split] obtain t a n m where
    f: "pre = prologue n @ SwiSHA1Calc buf # restore_prefix t a" "post = goodbye m" "unlock_ok E"
    by blast
  have "Nandio Unlock_writing \<in> set pre"
    using f(1) by (simp add: restore_prefix_def)
  moreover have "Nandio Shutdown \<in> set post"
    using f(2) by (simp add: goodbye_def)
  moreover have "\<forall>e\<in>set pre \<union> set post. \<not> is_fwrite e"
    using f(1,2) by (auto simp: prologue_def restore_prefix_def goodbye_def)
  moreover have "Nandio Lock_writing \<notin> set (trace (snd (main E w)))"
    using split f(1,2) by (auto simp: prologue_def restore_prefix_def goodbye_def)
  ultimately show ?thesis using f(3) by blast
qed

text \<open>
  Claim C5 as amended, on the run that repairs a damaged target.
\<close>

theorem write_between_unlock_and_shutdown_witness:
  "trace damaged_world = [] \<and>
   trace (snd (main (demo_env 520) damaged_world)) =
     (prologue 0 @ SwiSHA1Calc good_tmd # restore_prefix demo_tgt demo_app)
       @ Fwrite demo_tgt good_tmd # goodbye ''Done'' \<and>
   Nandio Unlock_writing \<in> set (prologue 0 @ SwiSHA1Calc good_tmd # restore_prefix demo_tgt demo_app) \<and>
   unlock_ok (demo_env 520) \<and> Nandio Shutdown \<in> set (goodbye ''Done'') \<and>
   Nandio Lock_writing \<notin> set (trace (snd (main (demo_env 520) damaged_world)))"
proof -
  have tr: "trace (snd (main (demo_env 520) damaged_world)) =
     (prologue 0 @ SwiSHA1Calc good_tmd # restore_prefix demo_tgt demo_app)
       @ Fwrite demo_tgt good_tmd # goodbye ''Done''"
    by (simp add: demo_run_damaged)
  from write_between_unlock_and_shutdown [OF demo_start(1) tr] demo_start(1) tr
  show ?thesis by blast
qed

text \<open>
  Claim C9 says that a target whose digest equals the expected one makes the program
  exit reporting that no action is needed. The source copy is read and verified before
  the two digests are compared (lines 140 to 155 come before line 157): with an intact
  target and a source copy of five bytes, the program aborts with the read error and
  never shows the message. And with both files intact, when the other processor has sent
  its EXIT message by the time \<open>cleanup\<close> tests \<open>arm7Exiting\<close>, the message is shown but
  the program stays in the loop of lines 55 and 56 and does not exit.
\<close>

theorem intact_target_yet_an_error_is_reported:
  "trace intact_world = [] \<and>
   fst (main_prelude (demo_env 520) intact_world) = Inr (demo_src, demo_tgt, demo_app) \<and>
   expectedSha1Tmd (demo_env 520) demo_src intact_world = Inr ''ggg520'' \<and>
   actualSha1Tmd (demo_env 520) demo_tgt intact_world = Inr ''ggg520'' \<and>
   fst (main (demo_env 520) intact_world) =
     Exited (error_prefix @ ''Failed to read source tmd ('' @ demo_src @ '')'') \<and>
   MessageBox msg_tmd_correct \<notin> set (trace (snd (main (demo_env 520) intact_world))) \<and>
   trace intact_ok_exit_world = [] \<and>
   fst (main_prelude (demo_env 520) intact_ok_exit_world) = Inr (demo_src, demo_tgt, demo_app) \<and>
   expectedSha1Tmd (demo_env 520) demo_src intact_ok_exit_world = Inr ''ggg520'' \<and>
   actualSha1Tmd (demo_env 520) demo_tgt intact_ok_exit_world = Inr ''ggg520'' \<and>
   fst (main (demo_env 520) intact_ok_exit_world) = Blocked"
proof -
  have "expectedSha1Tmd (demo_env 520) demo_src intact_world = Inr ''ggg520''"
       "actualSha1Tmd (demo_env 520) demo_tgt intact_world = Inr ''ggg520''"
       "expectedSha1Tmd (demo_env 520) demo_src intact_ok_exit_world = Inr ''ggg520''"
       "actualSha1Tmd (demo_env 520) demo_tgt intact_ok_exit_world = Inr ''ggg520''"
    by (simp_all add: intact_world_def intact_ok_exit_world_def demo_digests)
  moreover have "MessageBox msg_tmd_correct \<notin> set (trace (snd (main (demo_env 520) intact_world)))"
    by (simp add: demo_run_intact prologue_def goodbye_def error_prefix_def msg_tmd_correct_def
          msg_warning_def)
  moreover have "fst (main (demo_env 520) intact_world) =
     Exited (error_prefix @ ''Failed to read source tmd ('' @ demo_src @ '')'')"
    by (simp add: demo_run_intact)
  moreover have "fst (main (demo_env 520) intact_ok_exit_world) = Blocked"
    by (simp add: demo_run_intact_ok_exit)
  ultimately show ?thesis
    using demo_start(2,5) demo_paths(2) [of 520] demo_paths(5) [of 520] by blast
qed

text \<open>
  Claim C9, as the program has it. When the digest computed for the target equals the
  expected digest \<open>d\<close>, the run never calls \<open>nandio_unlock_writing\<close>, makes no call that
  changes the NAND, and leaves every file as it was. It ends with one message and
  \<open>cleanup\<close>; before that message only the warning was shown. The message is the one the
  source copy calls for (\<open>source_verdict\<close>): the open error if it cannot be opened, the
  read error if it has fewer than 520 bytes, the hash-mismatch error if the digest of its
  first 520 bytes is not \<open>d\<close>, and otherwise that no action is needed. The program then
  exits with that message unless \<open>arm7Exiting\<close> is set when \<open>cleanup\<close> tests it, in which
  case it stays there; it does exit when the flag is clear at the start and the other
  processor sends no EXIT message.
\<close>

theorem matching_target_is_left_alone:
  assumes start: "trace w = []"
      and paths: "fst (main_prelude E w) = Inr (s, t, a)"
      and expected: "expectedSha1Tmd E s w = Inr d"
      and actual: "actualSha1Tmd E t w = Inr d"
  shows "Nandio Unlock_writing \<notin> set (trace (snd (main E w))) \<and>
         (\<forall>e\<in>set (trace (snd (main E w))). \<not> nand_write e) \<and>
         files (snd (main E w)) = files w \<and>
         (\<exists>pre. trace (snd (main E w)) = pre @ goodbye (source_verdict E s d w) \<and>
                (\<forall>m. MessageBox m \<in> set pre \<longrightarrow> m = msg_warning)) \<and>
         fst (main E w) =
           (if arm7Exiting (snd (main E w)) then Blocked else Exited (source_verdict E s d w)) \<and>
         (no_exit_signal w \<longrightarrow> fst (main E w) = Exited (source_verdict E s d w))"
proof -
  let ?m = "source_verdict E s d w"
  from paths obtain w1 where pre: "main_prelude E w = (Inr (s, t, a), w1)"
    by (blast dest: prelude_pair)
  from main_prelude_Inr [OF pre] start obtain n where
    w1: "trace w1 = prologue n" "files w1 = files w"
    by (auto simp: prologue_def)
  from matching_run [OF pre expected actual] obtain v where
    v: "main E w = exitWithMessage ?m v" "files v = files w"
       "v = w1 \<or> (\<exists>b. v = emit (SwiSHA1Calc b) w1)"
    by blast
  from v(3) w1(1) have tv: "trace v = prologue n \<or> (\<exists>b. trace v = prologue n @ [SwiSHA1Calc b])"
    by auto
  have tr: "trace (snd (main E w)) = trace v @ goodbye ?m"
    by (simp add: v(1) exitWithMessage_frame)
  have pv: "\<forall>e\<in>set (trace v). \<not> nand_write e \<and> e \<noteq> Nandio Unlock_writing \<and>
              (\<forall>m. e = MessageBox m \<longrightarrow> m = msg_warning)"
    using tv by (auto simp: prologue_def)
  have quiet: "\<forall>e\<in>set (trace (snd (main E w))). \<not> nand_write e \<and> e \<noteq> Nandio Unlock_writing"
    using pv by (auto simp: tr in_goodbye)
  have fs: "files (snd (main E w)) = files w"
    by (simp add: v(1,2) exitWithMessage_frame)
  have shape: "\<exists>pre. trace (snd (main E w)) = pre @ goodbye ?m \<and>
                (\<forall>m. MessageBox m \<in> set pre \<longrightarrow> m = msg_warning)"
    using tr pv by blast
  have out: "fst (main E w) = (if arm7Exiting (snd (main E w)) then Blocked else Exited ?m)"
    unfolding v(1) by (rule exitWithMessage_exit)
  have calm: "fst (main E w) = Exited ?m" if q: "no_exit_signal w"
  proof -
    from main_prelude_quiet [OF pre q] have "no_exit_signal w1" .
    with v(3) have "no_exit_signal v" by auto
    from exitWithMessage_quiet [OF this, of ?m] out v(1) show ?thesis by simp
  qed
  from quiet fs shape out calm show ?thesis by blast
qed

text \<open>
  Claim C9 as amended, on the run with both files intact and no EXIT message.
\<close>

theorem matching_target_is_left_alone_witness:
  "trace intact_ok_world = [] \<and>
   fst (main_prelude (demo_env 520) intact_ok_world) = Inr (demo_src, demo_tgt, demo_app) \<and>
   expectedSha1Tmd (demo_env 520) demo_src intact_ok_world = Inr ''ggg520'' \<and>
   actualSha1Tmd (demo_env 520) demo_tgt intact_ok_world = Inr ''ggg520'' \<and>
   source_verdict (demo_env 520) demo_src ''ggg520'' intact_ok_world = msg_tmd_correct \<and>
   no_exit_signal intact_ok_world \<and>
   Nandio Unlock_writing \<notin> set (trace (snd (main (demo_env 520) intact_ok_world))) \<and>
   files (snd (main (demo_env 520) intact_ok_world)) = files intact_ok_world \<and>
   fst (main (demo_env 520) intact_ok_world) = Exited msg_tmd_correct"
proof -
  let ?E = "demo_env 520"
  have e: "expectedSha1Tmd ?E demo_src intact_ok_world = Inr ''ggg520''"
    and a: "actualSha1Tmd ?E demo_tgt intact_ok_world = Inr ''ggg520''"
    by (simp_all add: intact_ok_world_def demo_digests)
  have sv: "source_verdict ?E demo_src ''ggg520'' intact_ok_world = msg_tmd_correct"
    by (simp add: source_verdict_def intact_ok_world_def boot_def demo_files_lookup
          length_good_tmd demo_env_def demo_sha1_good)
  have q: "no_exit_signal intact_ok_world"
    by (simp add: no_exit_signal_def intact_ok_world_def boot_def)
  note r = matching_target_is_left_alone [OF demo_start(3) demo_paths(3) e a]
  from r have "Nandio Unlock_writing \<notin> set (trace (snd (main ?E intact_ok_world)))"
       "files (snd (main ?E intact_ok_world)) = files intact_ok_world"
    by blast+
  moreover from r q
  have "fst (main ?E intact_ok_world) =
          Exited (source_verdict ?E demo_src ''ggg520'' intact_ok_world)"
    by blast
  then have "fst (main ?E intact_ok_world) = Exited msg_tmd_correct"
    by (simp only: sv)
  ultimately have "Nandio Unlock_writing \<notin> set (trace (snd (main ?E intact_ok_world)))"
       "files (snd (main ?E intact_ok_world)) = files intact_ok_world"
       "fst (main ?E intact_ok_world) = Exited msg_tmd_correct"
    by blast+
  with demo_start(3) demo_paths(3) [of 520] e a sv q show ?thesis by blast
qed

text \<open>
  Claim C10. The program tests what \<open>fwrite\<close> returns (line 276) and not what \<open>fclose\<close>
  returns (line 275), where the stream is flushed. On the run that repairs a damaged
  target, with \<open>fwrite\<close> returning 1 and the flush bringing no byte to the file, the
  program reports \<open>Done\<close> and exits, while the target holds what it held before, cut and
  padded to 520 bytes, and not the verified buffer. On the same run with a flush that
  goes through, the target holds the verified buffer.
\<close>

theorem done_is_reported_after_a_failed_flush:
  "trace damaged_world = [] \<and>
   files damaged_world demo_src = Some good_tmd \<and> length good_tmd = 520 \<and>
   files damaged_world demo_tgt = Some ''broken'' \<and>
   fwrite_count (demo_env 0) = 1 \<and> fwrite_room (demo_env 0) = 0 \<and>
   fst (main (demo_env 0) damaged_world) = Exited ''Done'' \<and>
   Fwrite demo_tgt good_tmd \<in> set (trace (snd (main (demo_env 0) damaged_world))) \<and>
   files (snd (main (demo_env 0) damaged_world)) demo_tgt
     = Some (''broken'' @ replicate 514 (CHR 0x00)) \<and>
   ''broken'' @ replicate 514 (CHR 0x00) \<noteq> good_tmd \<and>
   fst (main (demo_env 520) damaged_world) = Exited ''Done'' \<and>
   files (snd (main (demo_env 520) damaged_world)) demo_tgt = Some good_tmd"
proof -
  have "files damaged_world demo_src = Some good_tmd"
       "files damaged_world demo_tgt = Some ''broken''"
    by (simp_all add: damaged_world_def boot_def demo_files_lookup)
  moreover have "fwrite_count (demo_env 0) = 1" "fwrite_room (demo_env 0) = 0"
    by (simp_all add: demo_env_def)
  moreover have "''broken'' @ replicate 514 (CHR 0x00) \<noteq> good_tmd"
  proof
    assume "''broken'' @ replicate 514 (CHR 0x00) = good_tmd"
    then have "hd (''broken'' @ replicate 514 (CHR 0x00)) = hd good_tmd"
      by (rule arg_cong)
    then show False
      by (simp add: good_tmd_def)
  qed
  moreover have "Fwrite demo_tgt good_tmd \<in> set (trace (snd (main (demo_env 0) damaged_world)))"
    by (simp add: demo_run_damaged_unflushed)
  moreover have "files (snd (main (demo_env 0) damaged_world)) demo_tgt
                   = Some (''broken'' @ replicate 514 (CHR 0x00))"
       "files (snd (main (demo_env 520) damaged_world)) demo_tgt = Some good_tmd"
    by (simp_all add: demo_run_damaged_unflushed demo_run_damaged)
  moreover have "fst (main (demo_env 0) damaged_world) = Exited ''Done''"
       "fst (main (demo_env 520) damaged_world) = Exited ''Done''"
    by (simp_all add: demo_run_damaged_unflushed demo_run_damaged)
  ultimately show ?thesis
    using demo_start(1) length_good_tmd by blast
qed

section \<open>The claims about the driver\<close>

text \<open>
  Claim C6. The constant \<open>CRYPT_BUF_LEN\<close> of the driver interface is 64. The scratch
  buffer is the only thing of the cipher engine that a call of \<open>transform\<close> changes,
  and it is 64 bytes long throughout: when the engine is set up, after every refill, and
  so after a transform of any buffer on any sector. What the call returns is the pure
  function \<open>transform\<close> of key stream, sector and buffer, whatever the scratch buffer
  held before: the buffer is reusable.
\<close>

theorem scratch_is_CRYPT_BUF_LEN_bytes:
  "CRYPT_BUF_LEN = 64 \<and>
   length (scratch (cipher_init ks)) = 64 \<and>
   length (scratch (snd (engine_step e i off piece))) = 64 \<and>
   (length (scratch e) = 64 \<longrightarrow> length (scratch (snd (engine_transform e i buf))) = 64) \<and>
   key_stream (snd (engine_transform e i buf)) = key_stream e \<and>
   fst (engine_transform e i buf) = transform (key_stream e) i buf"
  using engine_transform_from_state [of e i 0 buf]
  by (simp add: engine_transform_def transform_def engine_transform_from_output
        engine_step_state cipher_init_def CRYPT_BUF_LEN_def)

text \<open>
  Claim C6, on an engine just set up, for four bytes of sector 2.
\<close>

theorem scratch_is_CRYPT_BUF_LEN_bytes_witness:
  "length (scratch (cipher_init demo_keys)) = 64 \<and>
   length (scratch (snd (engine_transform (cipher_init demo_keys) 2 [1, 2, 3, 4]))) = 64 \<and>
   fst (engine_transform (cipher_init demo_keys) 2 [1, 2, 3, 4]) = [14, 18, 18, 22] \<and>
   transform demo_keys 2 [1, 2, 3, 4] = [14, 18, 18, 22]"
proof -
  have v: "transform demo_keys 2 [1, 2, 3, 4] = [14, 18, 18, 22]"
    by code_simp
  have k: "key_stream (cipher_init demo_keys) = demo_keys"
    by (simp add: cipher_init_def)
  from scratch_is_CRYPT_BUF_LEN_bytes [of demo_keys "cipher_init demo_keys" 2 0 "[]" "[1, 2, 3, 4]"]
  show ?thesis by (simp add: v k)
qed

text \<open>
  Claim C1. While the gate is \<open>Locked\<close>, \<open>writeSectors\<close> and \<open>forceTableRepair\<close> return
  \<open>WriteProtected\<close> and hand back the driver, medium included, exactly as it was; and
  \<open>readSectors\<close> gives what it gives with the gate \<open>Unlocked\<close>.
\<close>

theorem locked_gate_rejects_writes:
  assumes "gate d = Locked"
  shows "writeSectors d startIndex count data = (Failure WriteProtected, d) \<and>
         forceTableRepair d = (Failure WriteProtected, d) \<and>
         readSectors d startIndex count = readSectors (d\<lparr>gate := Unlocked\<rparr>) startIndex count"
  using assms
  by (simp add: writeSectors_def forceTableRepair_def readSectors_def cong: option.case_cong)

text \<open>
  Claim C1, on the small device with its gate locked.
\<close>

theorem locked_gate_rejects_writes_witness:
  "gate (demo_driver Locked) = Locked \<and>
   writeSectors (demo_driver Locked) 1 1 [5, 6, 7, 8]
     = (Failure WriteProtected, demo_driver Locked) \<and>
   forceTableRepair (demo_driver Locked) = (Failure WriteProtected, demo_driver Locked) \<and>
   readSectors (demo_driver Locked) 1 2 = Inr [1, 1, 1, 1, 2, 2, 2, 2] \<and>
   readSectors ((demo_driver Locked)\<lparr>gate := Unlocked\<rparr>) 1 2 = Inr [1, 1, 1, 1, 2, 2, 2, 2]"
proof -
  have locked: "gate (demo_driver Locked) = Locked"
    by (simp add: demo_driver_def)
  from locked_gate_rejects_writes [OF locked, of 1 1 "[5, 6, 7, 8]"]
       locked_gate_rejects_writes [OF locked, of 1 2]
       demo_tables(1) [of Locked] locked
  show ?thesis by simp
qed

end
